theory Spec2Isabelle
  imports Main "HOL-Library.Word"
begin

section \<open>WASI names used by the filesystem core\<close>

text \<open>
  Modelled from the spec: the module wasi_defs.js (the numeric constant namespace) is not
  part of the sources. The spec lists its error names in its error taxonomy; the code only
  ever compares and returns them by name, so they are an enumeration here. The literal
  \<^verbatim>\<open>ret: 0\<close> of the source is \<open>ERRNO_SUCCESS\<close>.
\<close>

datatype errno =
    ERRNO_SUCCESS | ERRNO_NOENT | ERRNO_EXIST | ERRNO_NOTDIR | ERRNO_ISDIR
  | ERRNO_NOTEMPTY | ERRNO_LOOP | ERRNO_NOTCAPABLE | ERRNO_INVAL | ERRNO_PERM
  | ERRNO_BADF | ERRNO_NOTSUP

section \<open>Strings\<close>

text \<open>
  A JavaScript string is a sequence of code units. The code only tests code units for
  equality with \<^verbatim>\<open>/\<close>, \<^verbatim>\<open>.\<close> and NUL, so a string is a \<^typ>\<open>string\<close> here.
  \<open>str_includes\<close> (the method \<^verbatim>\<open>includes\<close>) and \<open>split\<close> are only ever called with a
  one-character argument, which is passed as a \<^typ>\<open>char\<close>.
\<close>

definition startsWith :: "string \<Rightarrow> string \<Rightarrow> bool" where
  "startsWith s pre = (take (length pre) s = pre)"

definition endsWith :: "string \<Rightarrow> string \<Rightarrow> bool" where
  "endsWith s suf = (length suf \<le> length s \<and> drop (length s - length suf) s = suf)"

definition str_includes :: "string \<Rightarrow> char \<Rightarrow> bool" where
  "str_includes s c = (c \<in> set s)"

text \<open>\<^verbatim>\<open>s.split(sep)\<close>: the pieces between the separators; one piece more than separators.\<close>

fun split :: "string \<Rightarrow> char \<Rightarrow> string list" where
  "split [] sep = [[]]"
| "split (c # cs) sep =
     (if c = sep then [] # split cs sep
      else (case split cs sep of
              [] \<Rightarrow> [[c]]
            | w # ws \<Rightarrow> (c # w) # ws))"

text \<open>\<^verbatim>\<open>parts.join("/")\<close>.\<close>

fun join :: "string list \<Rightarrow> string \<Rightarrow> string" where
  "join [] sep = []"
| "join [p] sep = p"
| "join (p # q # ps) sep = p @ sep @ join (q # ps) sep"

section \<open>The path parser\<close>

record Path =
  parts :: "string list"
  is_dir :: bool

text \<open>
  The loop of \<^verbatim>\<open>Path.from\<close> over the components, with \<^verbatim>\<open>self.parts\<close> as the second
  argument. \<open>None\<close> is the early return with NOTCAPABLE, taken when \<^verbatim>\<open>pop()\<close> finds
  nothing to pop.
\<close>

fun from_loop :: "string list \<Rightarrow> string list \<Rightarrow> string list option" where
  "from_loop [] ps = Some ps"
| "from_loop (component # cs) ps =
     (if component = '''' \<or> component = ''.'' then from_loop cs ps
      else if component = ''..'' then
        (if ps = [] then None else from_loop cs (butlast ps))
      else from_loop cs (ps @ [component]))"

definition Path_from :: "string \<Rightarrow> errno \<times> Path option" where
  "Path_from path =
     (if startsWith path ''/'' then (ERRNO_NOTCAPABLE, None)
      else if str_includes path (CHR 0x00) then (ERRNO_INVAL, None)
      else (case from_loop (split path CHR ''/'') [] of
              None \<Rightarrow> (ERRNO_NOTCAPABLE, None)
            | Some ps \<Rightarrow>
                (ERRNO_SUCCESS, Some \<lparr>parts = ps, is_dir = endsWith path ''/''\<rparr>)))"

definition to_path_string :: "Path \<Rightarrow> string" where
  "to_path_string p = (let s = join (parts p) ''/'' in if is_dir p then s @ ''/'' else s)"

section \<open>JavaScript exceptions\<close>

text \<open>
  The source has no \<^verbatim>\<open>throw\<close> of its own, but the typed-array and buffer primitives it
  calls raise on a negative length or an offset outside the array, and destructuring
  \<^verbatim>\<open>undefined\<close> raises. A function that can reach such a call returns \<open>Inl\<close> of the
  exception, next to the state as it was when the exception left the function.
\<close>

datatype js_error = RangeError | TypeError

section \<open>Byte buffers\<close>

type_synonym byte = "8 word"

text \<open>
  A \<^verbatim>\<open>Uint8Array\<close> that views a whole buffer from offset 0, as every array of the source
  does: its bytes, the \<^verbatim>\<open>maxByteLength\<close> of its buffer, and whether the buffer is a
  resizable \<^verbatim>\<open>ArrayBuffer\<close> (the first two conjuncts of the test at the top of
  \<^verbatim>\<open>dataResize\<close>).
\<close>

record u8array =
  bytes :: "byte list"
  maxByteLength :: nat
  resizable :: bool

definition byteLength :: "u8array \<Rightarrow> int" where
  "byteLength a = int (length (bytes a))"

text \<open>\<^verbatim>\<open>new Uint8Array(new ArrayBuffer(n))\<close> for \<open>n = 0\<close>, and \<^verbatim>\<open>new Uint8Array([])\<close>.\<close>

definition empty_u8array :: u8array where
  "empty_u8array = \<lparr>bytes = [], maxByteLength = 0, resizable = False\<rparr>"

text \<open>
  The largest length the language takes for a buffer, \<open>2^53 - 1\<close>. \<^verbatim>\<open>Number(x)\<close> of a
  \<^verbatim>\<open>bigint\<close> is exact up to it, and rounds a larger one to a number that is larger too,
  so \<^verbatim>\<open>Number\<close> and \<^verbatim>\<open>BigInt\<close> are the identity here and a length beyond the bound is
  refused as the code refuses it.
\<close>

definition max_index :: int where
  "max_index = 2 ^ 53 - 1"

text \<open>
  The engine decides whether it has the memory for a buffer: \<open>g len m\<close> says whether it
  comes up with a buffer of length \<open>len\<close> and \<^verbatim>\<open>maxByteLength\<close> \<open>m\<close>. It is asked by
  \<^verbatim>\<open>new ArrayBuffer(len, {maxByteLength: m})\<close> and by \<^verbatim>\<open>buffer.resize(len)\<close>; both raise
  \<^verbatim>\<open>RangeError\<close> when it refuses, and when a length is negative or beyond \<open>max_index\<close>.
\<close>

definition new_ArrayBuffer :: "(nat \<Rightarrow> nat \<Rightarrow> bool) \<Rightarrow> int \<Rightarrow> int \<Rightarrow> js_error + u8array" where
  "new_ArrayBuffer g len m =
     (if len < 0 \<or> len > max_index then Inl RangeError
      else if m < 0 \<or> m > max_index then Inl RangeError
      else if len > m then Inl RangeError
      else if g (nat len) (nat m)
        then Inr \<lparr>bytes = replicate (nat len) 0, maxByteLength = nat m, resizable = True\<rparr>
      else Inl RangeError)"

definition buffer_resize :: "(nat \<Rightarrow> nat \<Rightarrow> bool) \<Rightarrow> u8array \<Rightarrow> int \<Rightarrow> js_error + u8array" where
  "buffer_resize g d len =
     (if len < 0 \<or> len > max_index then Inl RangeError
      else if len > int (maxByteLength d) then Inl RangeError
      else if g (nat len) (maxByteLength d)
        then Inr (d\<lparr>bytes := take (nat len) (bytes d)
                       @ replicate (nat len - length (bytes d)) 0\<rparr>)
      else Inl RangeError)"

text \<open>
  \<^verbatim>\<open>dataResize(data, newDataSize)\<close>, with the engine as its first argument. The last two
  branches build a new buffer and copy into it with \<^verbatim>\<open>newData.set\<close>: the first
  \<open>newDataSize\<close> bytes of the old data when shrinking, all of the old data when growing.
\<close>

definition dataResize :: "(nat \<Rightarrow> nat \<Rightarrow> bool) \<Rightarrow> u8array \<Rightarrow> int \<Rightarrow> js_error + u8array" where
  "dataResize g d newDataSize =
     (if byteLength d = newDataSize then Inr d
      else if resizable d \<and> newDataSize \<le> int (maxByteLength d) then
        buffer_resize g d newDataSize
      else if byteLength d > newDataSize then
        (case new_ArrayBuffer g newDataSize newDataSize of
           Inl e \<Rightarrow> Inl e
         | Inr newData \<Rightarrow> Inr (newData\<lparr>bytes := take (nat newDataSize) (bytes d)\<rparr>))
      else
        (case new_ArrayBuffer g newDataSize
                (max newDataSize (int (maxByteLength d) * 2)) of
           Inl e \<Rightarrow> Inl e
         | Inr newData \<Rightarrow>
             Inr (newData\<lparr>bytes := bytes d @ drop (length (bytes d)) (bytes newData)\<rparr>)))"

text \<open>\<^verbatim>\<open>target.set(source, offset)\<close>: raises when the source does not fit.\<close>

definition u8_set :: "u8array \<Rightarrow> byte list \<Rightarrow> int \<Rightarrow> js_error + u8array" where
  "u8_set d src offset =
     (if offset < 0 \<or> offset + int (length src) > byteLength d then Inl RangeError
      else Inr (d\<lparr>bytes := take (nat offset) (bytes d) @ src
                     @ drop (nat offset + length src) (bytes d)\<rparr>))"

text \<open>
  \<^verbatim>\<open>array.slice(start, end)\<close>: a negative index counts from the end, both are clamped to
  the array, and an empty range gives an empty array.
\<close>

definition u8_slice :: "u8array \<Rightarrow> int \<Rightarrow> int \<Rightarrow> byte list" where
  "u8_slice d start end' =
     (let len = byteLength d;
          k = (if start < 0 then max (len + start) 0 else min start len);
          final = (if end' < 0 then max (len + end') 0 else min end' len)
      in take (nat (final - k)) (drop (nat k) (bytes d)))"

section \<open>Inodes and the store\<close>

text \<open>
  Modelled from the spec: the file types of wasi_defs.js, by name (the spec's metadata
  record: regular, directory, symlink, character device).
\<close>

datatype filetype =
    FILETYPE_REGULAR_FILE | FILETYPE_DIRECTORY | FILETYPE_SYMBOLIC_LINK
  | FILETYPE_CHARACTER_DEVICE

text \<open>
  An \<^verbatim>\<open>Inode\<close> object is shared by reference: \<^verbatim>\<open>path_link\<close> stores the very object it is
  given, and a directory points back at its parent. So objects live in a store, one cell
  per object and class, and a reference names the class and the cell; \<^verbatim>\<open>instanceof\<close>
  is the constructor of the reference. The store is total: a cell that no constructor has
  filled yet holds some object, and \<open>next_ref\<close> is the next cell a constructor fills. With
  the objects the state holds what else the program runs on: the inode counter, and the
  engine's answer to a request for a buffer, \<open>grants\<close>.
\<close>

datatype inode_ref = FileRef nat | DirectoryRef nat | SymlinkRef nat

record Inode =
  ino :: int
  atim :: int
  mtim :: int
  ctim :: int

record File = Inode +
  data :: u8array
  readonly :: bool

record Directory = Inode +
  contents :: "(string \<times> inode_ref) list"
  parent :: "nat option"

record Symlink = Inode +
  target :: string

record fs =
  files :: "nat \<Rightarrow> File"
  directories :: "nat \<Rightarrow> Directory"
  symlinks :: "nat \<Rightarrow> Symlink"
  next_ref :: nat
  next_ino :: int
  grants :: "nat \<Rightarrow> nat \<Rightarrow> bool"

text \<open>
  A \<^verbatim>\<open>Map\<close> keeps insertion order: \<^verbatim>\<open>set\<close> on a present key replaces the value where it
  stands, on an absent key appends.
\<close>

definition Map_get :: "(string \<times> 'v) list \<Rightarrow> string \<Rightarrow> 'v option" where
  "Map_get m k = map_of m k"

fun Map_set :: "(string \<times> 'v) list \<Rightarrow> string \<Rightarrow> 'v \<Rightarrow> (string \<times> 'v) list" where
  "Map_set [] k v = [(k, v)]"
| "Map_set ((k', v') # m) k v =
     (if k' = k then (k, v) # m else (k', v') # Map_set m k v)"

definition Map_size :: "(string \<times> 'v) list \<Rightarrow> int" where
  "Map_size m = int (length m)"

subsection \<open>The inode counter\<close>

text \<open>\<^verbatim>\<open>private static next_ino: bigint = 1n\<close>: whatever else the first state holds.\<close>

definition initial_next_ino :: int where
  "initial_next_ino = 1"

definition issue_ino :: "fs \<Rightarrow> int \<times> fs" where
  "issue_ino s = (next_ino s, s\<lparr>next_ino := next_ino s + 1\<rparr>)"

definition root_ino :: int where
  "root_ino = 0"

text \<open>\<open>n\<close> calls of \<^verbatim>\<open>issue_ino\<close> in a row: the numbers issued, and the state after.\<close>

fun issue_inos :: "nat \<Rightarrow> fs \<Rightarrow> int list \<times> fs" where
  "issue_inos 0 s = ([], s)"
| "issue_inos (Suc n) s =
     (let (i, s1) = issue_ino s; (is, s2) = issue_inos n s1 in (i # is, s2))"

subsection \<open>Constructors\<close>

text \<open>
  Each constructor runs \<^verbatim>\<open>Inode\<close>'s first: it issues the ino and stamps the three times
  with \<^verbatim>\<open>now()\<close>, which is the argument \<open>time\<close> here.
\<close>

definition new_File :: "fs \<Rightarrow> u8array \<Rightarrow> bool \<Rightarrow> int \<Rightarrow> inode_ref \<times> fs" where
  "new_File s d ro time =
     (let (i, s1) = issue_ino s; r = next_ref s1
      in (FileRef r,
          s1\<lparr>files := (files s1)(r := \<lparr>ino = i, atim = time, mtim = time, ctim = time,
                                        data = d, readonly = ro\<rparr>),
             next_ref := r + 1\<rparr>))"

definition new_Symlink :: "fs \<Rightarrow> string \<Rightarrow> int \<Rightarrow> inode_ref \<times> fs" where
  "new_Symlink s tgt time =
     (let (i, s1) = issue_ino s; r = next_ref s1
      in (SymlinkRef r,
          s1\<lparr>symlinks := (symlinks s1)(r := \<lparr>ino = i, atim = time, mtim = time,
                                              ctim = time, target = tgt\<rparr>),
             next_ref := r + 1\<rparr>))"

definition set_parent :: "fs \<Rightarrow> nat \<Rightarrow> nat option \<Rightarrow> fs" where
  "set_parent s d p = s\<lparr>directories := (directories s)(d := (directories s d)\<lparr>parent := p\<rparr>)\<rparr>"

text \<open>
  \<^verbatim>\<open>new Map(array)\<close> sets the pairs of the array one after the other: a name that comes
  twice keeps its first place and its last value.
\<close>

definition new_Map :: "(string \<times> 'v) list \<Rightarrow> (string \<times> 'v) list" where
  "new_Map pairs = foldl (\<lambda>m (k, v). Map_set m k v) [] pairs"

text \<open>
  The argument of the \<^verbatim>\<open>Directory\<close> constructor,
  \<^verbatim>\<open>Map<string, Inode> | [string, Inode][]\<close>: a \<^verbatim>\<open>Map\<close>, which the directory takes as it
  is, or an array of pairs, from which it makes a \<^verbatim>\<open>Map\<close>.
\<close>

datatype contents_arg =
    Map_arg "(string \<times> inode_ref) list"
  | Array_arg "(string \<times> inode_ref) list"

text \<open>The loop of the \<^verbatim>\<open>Directory\<close> constructor over \<^verbatim>\<open>contents.values()\<close>.\<close>

fun adopt_entries :: "fs \<Rightarrow> nat \<Rightarrow> inode_ref list \<Rightarrow> fs" where
  "adopt_entries s this [] = s"
| "adopt_entries s this (DirectoryRef d # es) = adopt_entries (set_parent s d (Some this)) this es"
| "adopt_entries s this (_ # es) = adopt_entries s this es"

definition new_Directory :: "fs \<Rightarrow> contents_arg \<Rightarrow> int \<Rightarrow> inode_ref \<times> fs" where
  "new_Directory s arg time =
     (let (i, s1) = issue_ino s; r = next_ref s1;
          cs = (case arg of Array_arg pairs \<Rightarrow> new_Map pairs | Map_arg m \<Rightarrow> m);
          s2 = s1\<lparr>directories := (directories s1)(r := \<lparr>ino = i, atim = time, mtim = time,
                                       ctim = time, contents = cs, parent = None\<rparr>),
                  next_ref := r + 1\<rparr>
      in (DirectoryRef r, adopt_entries s2 r (map snd cs)))"

definition parent_ino :: "fs \<Rightarrow> nat \<Rightarrow> int" where
  "parent_ino s d =
     (case parent (directories s d) of
        None \<Rightarrow> root_ino
      | Some p \<Rightarrow> ino (directories s p))"

text \<open>The field \<^verbatim>\<open>ino\<close> of the object behind a reference, and \<^verbatim>\<open>stat().filetype\<close>.\<close>

definition ino_of :: "fs \<Rightarrow> inode_ref \<Rightarrow> int" where
  "ino_of s r =
     (case r of
        FileRef f \<Rightarrow> ino (files s f)
      | DirectoryRef d \<Rightarrow> ino (directories s d)
      | SymlinkRef l \<Rightarrow> ino (symlinks s l))"

definition stat_filetype :: "inode_ref \<Rightarrow> filetype" where
  "stat_filetype r =
     (case r of
        FileRef f \<Rightarrow> FILETYPE_REGULAR_FILE
      | DirectoryRef d \<Rightarrow> FILETYPE_DIRECTORY
      | SymlinkRef l \<Rightarrow> FILETYPE_SYMBOLIC_LINK)"

section \<open>The resolution engine\<close>

definition SYMLOOP_MAX :: nat where
  "SYMLOOP_MAX = 40"

definition partsToPathString :: "string list \<Rightarrow> bool \<Rightarrow> string" where
  "partsToPathString ps isDir =
     (if length ps = 0 then ''''
      else (let s = join ps ''/'' in if isDir then s @ ''/'' else s))"

definition joinPaths :: "string \<Rightarrow> string \<Rightarrow> string" where
  "joinPaths base addition =
     (if length base = 0 then addition
      else if length addition = 0 then base
      else if endsWith base ''/'' then base @ addition
      else base @ ''/'' @ addition)"

text \<open>
  The path a followed symlink is replaced by: lines 789 to 794 of the resolver, the target
  joined with what is left of the path.
\<close>

definition followed_path :: "string \<Rightarrow> string list \<Rightarrow> bool \<Rightarrow> string" where
  "followed_path tgt rest isDir =
     (let restStr = partsToPathString rest isDir
      in if length restStr > 0 then joinPaths tgt restStr
         else if isDir \<and> \<not> endsWith tgt ''/'' then tgt @ ''/''
         else tgt)"

text \<open>
  \<^verbatim>\<open>resolve_path_from(current, parts, isDir, followFinal, depth)\<close>, returning the pair
  \<^verbatim>\<open>{ret, entry}\<close>. The recursion ends: a followed symlink raises \<open>depth\<close>, which stays
  below \<open>SYMLOOP_MAX\<close>, and a step into a directory shortens \<open>parts\<close>.
\<close>

function resolve_path_from ::
  "fs \<Rightarrow> nat \<Rightarrow> string list \<Rightarrow> bool \<Rightarrow> bool \<Rightarrow> nat \<Rightarrow> errno \<times> inode_ref option" where
  "resolve_path_from s current [] isDir followFinal depth =
     (if isDir \<and> stat_filetype (DirectoryRef current) \<noteq> FILETYPE_DIRECTORY
      then (ERRNO_NOTDIR, None)
      else (ERRNO_SUCCESS, Some (DirectoryRef current)))"
| "resolve_path_from s current (component # rest) isDir followFinal depth =
     (case Map_get (contents (directories s current)) component of
        None \<Rightarrow> (ERRNO_NOENT, None)
      | Some child \<Rightarrow>
          (case child of
             SymlinkRef l \<Rightarrow>
               (if \<not> (if length rest > 0 then True else followFinal \<or> isDir) then
                  (if length rest > 0 \<or> isDir then (ERRNO_NOTDIR, None)
                   else (ERRNO_SUCCESS, Some child))
                else if depth \<ge> SYMLOOP_MAX then (ERRNO_LOOP, None)
                else
                  (case Path_from (followed_path (target (symlinks s l)) rest isDir) of
                     (targetRet, None) \<Rightarrow> (targetRet, None)
                   | (targetRet, Some targetResolved) \<Rightarrow>
                       resolve_path_from s current (parts targetResolved)
                         (is_dir targetResolved) followFinal (depth + 1)))
           | _ \<Rightarrow>
               (if \<not> length rest > 0 then
                  (if isDir \<and> stat_filetype child \<noteq> FILETYPE_DIRECTORY
                   then (ERRNO_NOTDIR, None)
                   else (ERRNO_SUCCESS, Some child))
                else
                  (case child of
                     DirectoryRef d \<Rightarrow> resolve_path_from s d rest isDir followFinal depth
                   | _ \<Rightarrow> (ERRNO_NOTDIR, None)))))"
  by pat_completeness auto
termination
  by (relation "measures [\<lambda>(s, current, ps, isDir, followFinal, depth). SYMLOOP_MAX - depth,
                          \<lambda>(s, current, ps, isDir, followFinal, depth). length ps]")
     auto

definition resolve_path :: "fs \<Rightarrow> nat \<Rightarrow> Path \<Rightarrow> bool \<Rightarrow> errno \<times> inode_ref option" where
  "resolve_path s this path followFinal =
     resolve_path_from s this (parts path) (is_dir path) followFinal 0"

definition get_entry_for_path :: "fs \<Rightarrow> nat \<Rightarrow> Path \<Rightarrow> bool \<Rightarrow> errno \<times> inode_ref option" where
  "get_entry_for_path s this path followFinal = resolve_path s this path followFinal"

text \<open>
  \<^verbatim>\<open>get_parent_dir_and_entry_for_path(path, allow_undefined)\<close>. The first statement is
  \<^verbatim>\<open>path.parts.pop()\<close>, on the caller's \<^verbatim>\<open>Path\<close> object: the function returns that object
  as it leaves it, then \<^verbatim>\<open>ret\<close>, \<^verbatim>\<open>parent_entry\<close>, \<^verbatim>\<open>filename\<close> and \<^verbatim>\<open>entry\<close>.
\<close>

definition get_parent_dir_and_entry_for_path ::
  "fs \<Rightarrow> nat \<Rightarrow> Path \<Rightarrow> bool \<Rightarrow> Path \<times> errno \<times> nat option \<times> string option \<times> inode_ref option" where
  "get_parent_dir_and_entry_for_path s this path allow_undefined =
     (if parts path = [] then (path, ERRNO_INVAL, None, None, None)
      else
        (let filename = last (parts path);
             path1 = path\<lparr>parts := butlast (parts path)\<rparr>
         in (case resolve_path_from s this (parts path1) True True 0 of
               (parent_ret, None) \<Rightarrow> (path1, parent_ret, None, None, None)
             | (parent_ret, Some (DirectoryRef parent_entry)) \<Rightarrow>
                 (case Map_get (contents (directories s parent_entry)) filename of
                    None \<Rightarrow>
                      (if \<not> allow_undefined then (path1, ERRNO_NOENT, None, None, None)
                       else (path1, ERRNO_SUCCESS, Some parent_entry, Some filename, None))
                  | Some entry \<Rightarrow>
                      (path1, ERRNO_SUCCESS, Some parent_entry, Some filename, Some entry))
             | (parent_ret, Some _) \<Rightarrow> (path1, ERRNO_NOTDIR, None, None, None))))"

section \<open>Open files\<close>

text \<open>
  Modelled from the spec: the flag words of wasi_defs.js. The code tests a word only by
  \<^verbatim>\<open>(word & FLAG) == FLAG\<close>, so a word is the set of the flags it holds, by name; a
  \<^verbatim>\<open>whence\<close> that is none of the three named ones is \<open>WHENCE_OTHER\<close>.
\<close>

datatype oflags = OFLAGS_CREAT | OFLAGS_DIRECTORY | OFLAGS_EXCL | OFLAGS_TRUNC

datatype fdflags = FDFLAGS_APPEND | FDFLAGS_DSYNC | FDFLAGS_NONBLOCK | FDFLAGS_RSYNC | FDFLAGS_SYNC

datatype rights =
    RIGHTS_FD_DATASYNC | RIGHTS_FD_READ | RIGHTS_FD_SEEK | RIGHTS_FD_TELL | RIGHTS_FD_WRITE
  | RIGHTS_FD_FILESTAT_GET | RIGHTS_FD_FILESTAT_SET_SIZE | RIGHTS_FD_FILESTAT_SET_TIMES
  | RIGHTS_FD_SYNC | RIGHTS_FD_ADVISE | RIGHTS_FD_ALLOCATE | RIGHTS_FD_READDIR
  | RIGHTS_PATH_CREATE_DIRECTORY | RIGHTS_PATH_CREATE_FILE | RIGHTS_PATH_LINK_SOURCE
  | RIGHTS_PATH_LINK_TARGET | RIGHTS_PATH_OPEN | RIGHTS_PATH_READLINK
  | RIGHTS_PATH_RENAME_SOURCE | RIGHTS_PATH_RENAME_TARGET | RIGHTS_PATH_FILESTAT_GET
  | RIGHTS_PATH_SYMLINK | RIGHTS_PATH_REMOVE_DIRECTORY | RIGHTS_PATH_UNLINK_FILE

datatype whence = WHENCE_SET | WHENCE_CUR | WHENCE_END | WHENCE_OTHER

record OpenFile =
  file_of :: nat
  file_pos :: int

definition File_size :: "fs \<Rightarrow> nat \<Rightarrow> int" where
  "File_size s f = byteLength (data (files s f))"

text \<open>The assignment \<^verbatim>\<open>file.data = d\<close>.\<close>

definition assign_data :: "fs \<Rightarrow> nat \<Rightarrow> u8array \<Rightarrow> fs" where
  "assign_data s f d = s\<lparr>files := (files s)(f := (files s f)\<lparr>data := d\<rparr>)\<rparr>"

definition fd_allocate :: "fs \<Rightarrow> OpenFile \<Rightarrow> int \<Rightarrow> int \<Rightarrow> (js_error + errno) \<times> fs" where
  "fd_allocate s fd offset len =
     (if File_size s (file_of fd) \<ge> offset + len then (Inr ERRNO_SUCCESS, s)
      else (case dataResize (grants s) (data (files s (file_of fd))) (offset + len) of
              Inl e \<Rightarrow> (Inl e, s)
            | Inr d \<Rightarrow> (Inr ERRNO_SUCCESS, assign_data s (file_of fd) d)))"

definition fd_filestat_set_size :: "fs \<Rightarrow> OpenFile \<Rightarrow> int \<Rightarrow> (js_error + errno) \<times> fs" where
  "fd_filestat_set_size s fd sz =
     (case dataResize (grants s) (data (files s (file_of fd))) sz of
        Inl e \<Rightarrow> (Inl e, s)
      | Inr d \<Rightarrow> (Inr ERRNO_SUCCESS, assign_data s (file_of fd) d))"

definition fd_read :: "fs \<Rightarrow> OpenFile \<Rightarrow> int \<Rightarrow> (errno \<times> byte list) \<times> OpenFile" where
  "fd_read s fd sz =
     (let slice = u8_slice (data (files s (file_of fd))) (file_pos fd) (file_pos fd + sz)
      in ((ERRNO_SUCCESS, slice), fd\<lparr>file_pos := file_pos fd + int (length slice)\<rparr>))"

definition fd_pread :: "fs \<Rightarrow> OpenFile \<Rightarrow> int \<Rightarrow> int \<Rightarrow> errno \<times> byte list" where
  "fd_pread s fd sz offset =
     (let slice = u8_slice (data (files s (file_of fd))) offset (offset + sz)
      in (ERRNO_SUCCESS, slice))"

definition fd_seek :: "fs \<Rightarrow> OpenFile \<Rightarrow> int \<Rightarrow> whence \<Rightarrow> (errno \<times> int) \<times> OpenFile" where
  "fd_seek s fd offset wh =
     (case (case wh of
              WHENCE_SET \<Rightarrow> Some offset
            | WHENCE_CUR \<Rightarrow> Some (file_pos fd + offset)
            | WHENCE_END \<Rightarrow> Some (byteLength (data (files s (file_of fd))) + offset)
            | WHENCE_OTHER \<Rightarrow> None) of
        None \<Rightarrow> ((ERRNO_INVAL, 0), fd)
      | Some calculated_offset \<Rightarrow>
          (if calculated_offset < 0 then ((ERRNO_INVAL, 0), fd)
           else ((ERRNO_SUCCESS, calculated_offset), fd\<lparr>file_pos := calculated_offset\<rparr>)))"

definition fd_tell :: "OpenFile \<Rightarrow> errno \<times> int" where
  "fd_tell fd = (ERRNO_SUCCESS, file_pos fd)"

text \<open>
  \<^verbatim>\<open>fd_write\<close> and \<^verbatim>\<open>fd_pwrite\<close> return \<^verbatim>\<open>{ret, nwritten}\<close>, and the handle and the store
  as they leave them.
\<close>

definition fd_write ::
  "fs \<Rightarrow> OpenFile \<Rightarrow> byte list \<Rightarrow> (js_error + errno \<times> int) \<times> OpenFile \<times> fs" where
  "fd_write s fd d =
     (if readonly (files s (file_of fd)) then (Inr (ERRNO_BADF, 0), fd, s)
      else
        (case (if file_pos fd + int (length d) > File_size s (file_of fd)
               then (case dataResize (grants s) (data (files s (file_of fd))) (file_pos fd + int (length d)) of
                       Inl e \<Rightarrow> Inl e
                     | Inr d1 \<Rightarrow> Inr (assign_data s (file_of fd) d1))
               else Inr s) of
           Inl e \<Rightarrow> (Inl e, fd, s)
         | Inr s1 \<Rightarrow>
             (case u8_set (data (files s1 (file_of fd))) d (file_pos fd) of
                Inl e \<Rightarrow> (Inl e, fd, s1)
              | Inr d2 \<Rightarrow>
                  (Inr (ERRNO_SUCCESS, int (length d)),
                   fd\<lparr>file_pos := file_pos fd + int (length d)\<rparr>,
                   assign_data s1 (file_of fd) d2))))"

definition fd_pwrite ::
  "fs \<Rightarrow> OpenFile \<Rightarrow> byte list \<Rightarrow> int \<Rightarrow> (js_error + errno \<times> int) \<times> fs" where
  "fd_pwrite s fd d offset =
     (if readonly (files s (file_of fd)) then (Inr (ERRNO_BADF, 0), s)
      else
        (case (if offset + int (length d) > File_size s (file_of fd)
               then (case dataResize (grants s) (data (files s (file_of fd))) (offset + int (length d)) of
                       Inl e \<Rightarrow> Inl e
                     | Inr d1 \<Rightarrow> Inr (assign_data s (file_of fd) d1))
               else Inr s) of
           Inl e \<Rightarrow> (Inl e, s)
         | Inr s1 \<Rightarrow>
             (case u8_set (data (files s1 (file_of fd))) d offset of
                Inl e \<Rightarrow> (Inl e, s1)
              | Inr d2 \<Rightarrow> (Inr (ERRNO_SUCCESS, int (length d)), assign_data s1 (file_of fd) d2))))"

text \<open>\<^verbatim>\<open>File.path_open(oflags, fs_rights_base, fd_flags)\<close>, returning \<^verbatim>\<open>{ret, fd_obj}\<close>.\<close>

definition File_path_open ::
  "fs \<Rightarrow> nat \<Rightarrow> oflags set \<Rightarrow> rights set \<Rightarrow> fdflags set \<Rightarrow> (errno \<times> OpenFile option) \<times> fs" where
  "File_path_open s f oflags fs_rights_base fd_flags =
     (if readonly (files s f) \<and> RIGHTS_FD_WRITE \<in> fs_rights_base then ((ERRNO_PERM, None), s)
      else if OFLAGS_TRUNC \<in> oflags \<and> readonly (files s f) then ((ERRNO_PERM, None), s)
      else
        (let s1 = (if OFLAGS_TRUNC \<in> oflags then assign_data s f empty_u8array else s);
             fd = \<lparr>file_of = f, file_pos = 0\<rparr>;
             fd1 = (if FDFLAGS_APPEND \<in> fd_flags then snd (fd_seek s1 fd 0 WHENCE_END) else fd)
         in ((ERRNO_SUCCESS, Some fd1), s1)))"

section \<open>Open directories\<close>

text \<open>
  Modelled from the spec: the class \<^verbatim>\<open>Dirent\<close> of wasi_defs.js, with the four values its
  constructor is given: the next cookie, the ino, the name and the file type.
\<close>

record Dirent =
  d_next :: int
  d_ino :: int
  dir_name :: string
  d_type :: filetype

text \<open>
  \<^verbatim>\<open>fd_readdir_single(cookie)\<close> of an \<^verbatim>\<open>OpenDirectory\<close> on the directory \<open>dir\<close>,
  returning \<^verbatim>\<open>{ret, dirent}\<close>. A negative cookie indexes the entry array out of range,
  and destructuring the \<^verbatim>\<open>undefined\<close> it reads raises.
\<close>

definition fd_readdir_single :: "fs \<Rightarrow> nat \<Rightarrow> int \<Rightarrow> js_error + errno \<times> Dirent option" where
  "fd_readdir_single s dir cookie =
     (if cookie = 0 then
        Inr (ERRNO_SUCCESS,
             Some \<lparr>d_next = 1, d_ino = ino (directories s dir), dir_name = ''.'',
                   d_type = FILETYPE_DIRECTORY\<rparr>)
      else if cookie = 1 then
        Inr (ERRNO_SUCCESS,
             Some \<lparr>d_next = 2, d_ino = parent_ino s dir, dir_name = ''..'',
                   d_type = FILETYPE_DIRECTORY\<rparr>)
      else if cookie \<ge> Map_size (contents (directories s dir)) + 2 then
        Inr (ERRNO_SUCCESS, None)
      else if cookie - 2 < 0 then Inl TypeError
      else
        (case contents (directories s dir) ! nat (cookie - 2) of
           (name, entry) \<Rightarrow>
             Inr (ERRNO_SUCCESS,
                  Some \<lparr>d_next = cookie + 1, d_ino = ino_of s entry, dir_name = name,
                        d_type = stat_filetype entry\<rparr>)))"

text \<open>\<^verbatim>\<open>parent_entry.contents.set(filename, inode)\<close>.\<close>

definition contents_set :: "fs \<Rightarrow> nat \<Rightarrow> string \<Rightarrow> inode_ref \<Rightarrow> fs" where
  "contents_set s d filename inode =
     s\<lparr>directories := (directories s)
          (d := (directories s d)\<lparr>contents := Map_set (contents (directories s d)) filename inode\<rparr>)\<rparr>"

text \<open>
  \<^verbatim>\<open>path_link(path_str, inode, allow_dir)\<close> of an \<^verbatim>\<open>OpenDirectory\<close> on \<open>dir\<close>: the errno it
  returns and the store as it leaves it. The inner \<open>case\<close> is the block under
  \<^verbatim>\<open>if (entry != null)\<close>: \<open>Some\<close> of the errno it returns, or \<open>None\<close> where it falls through.
\<close>

definition path_link :: "fs \<Rightarrow> nat \<Rightarrow> string \<Rightarrow> inode_ref \<Rightarrow> bool \<Rightarrow> errno \<times> fs" where
  "path_link s dir path_str inode allow_dir =
     (case Path_from path_str of
        (path_ret, None) \<Rightarrow> (path_ret, s)
      | (path_ret, Some path) \<Rightarrow>
          (if is_dir path then (ERRNO_NOENT, s)
           else
             (case get_parent_dir_and_entry_for_path s dir path True of
                (path1, parent_ret, None, filename, entry) \<Rightarrow> (parent_ret, s)
              | (path1, parent_ret, Some parent_entry, None, entry) \<Rightarrow> (parent_ret, s)
              | (path1, parent_ret, Some parent_entry, Some filename, entry) \<Rightarrow>
                  (case (case entry of
                           None \<Rightarrow> None
                         | Some e \<Rightarrow>
                             (let source_is_dir = (stat_filetype inode = FILETYPE_DIRECTORY);
                                  target_is_dir = (stat_filetype e = FILETYPE_DIRECTORY)
                              in if source_is_dir \<and> target_is_dir then
                                   (case e of
                                      DirectoryRef ed \<Rightarrow>
                                        (if allow_dir then
                                           (if Map_size (contents (directories s ed)) = 0
                                            then None
                                            else Some ERRNO_NOTEMPTY)
                                         else Some ERRNO_EXIST)
                                    | _ \<Rightarrow> Some ERRNO_EXIST)
                                 else if source_is_dir \<and> \<not> target_is_dir then Some ERRNO_NOTDIR
                                 else if \<not> source_is_dir \<and> target_is_dir then Some ERRNO_ISDIR
                                 else if stat_filetype inode = FILETYPE_REGULAR_FILE
                                         \<and> stat_filetype e = FILETYPE_REGULAR_FILE
                                 then None
                                 else Some ERRNO_EXIST)) of
                     Some err \<Rightarrow> (err, s)
                   | None \<Rightarrow>
                       (if \<not> allow_dir \<and> stat_filetype inode = FILETYPE_DIRECTORY
                        then (ERRNO_PERM, s)
                        else
                          (let s1 = (case inode of
                                       DirectoryRef d \<Rightarrow> set_parent s d (Some parent_entry)
                                     | _ \<Rightarrow> s)
                           in (ERRNO_SUCCESS, contents_set s1 parent_entry filename inode)))))))"

text \<open>
  \<^verbatim>\<open>create_symlink_for_path(path_str, target)\<close> of the directory \<open>this\<close>, returning
  \<^verbatim>\<open>{ret, entry}\<close> and the store as it leaves it; \<open>time\<close> is what \<^verbatim>\<open>now()\<close> gives the new
  inode.
\<close>

definition create_symlink_for_path ::
  "fs \<Rightarrow> nat \<Rightarrow> string \<Rightarrow> string \<Rightarrow> int \<Rightarrow> (errno \<times> inode_ref option) \<times> fs" where
  "create_symlink_for_path s this path_str tgt time =
     (if str_includes tgt (CHR 0x00) \<or> startsWith tgt ''/'' then ((ERRNO_INVAL, None), s)
      else
        (case Path_from path_str of
           (path_ret, None) \<Rightarrow> ((path_ret, None), s)
         | (path_ret, Some path) \<Rightarrow>
             (case get_parent_dir_and_entry_for_path s this path True of
                (path1, parent_ret, None, filename, entry) \<Rightarrow> ((parent_ret, None), s)
              | (path1, parent_ret, Some parent_entry, None, entry) \<Rightarrow> ((parent_ret, None), s)
              | (path1, parent_ret, Some parent_entry, Some filename, entry) \<Rightarrow>
                  (if is_dir path1 then
                     (case entry of
                        None \<Rightarrow> ((ERRNO_NOENT, None), s)
                      | Some e \<Rightarrow>
                          (if stat_filetype e = FILETYPE_DIRECTORY then ((ERRNO_EXIST, None), s)
                           else ((ERRNO_NOTDIR, None), s)))
                   else
                     (case entry of
                        Some e \<Rightarrow> ((ERRNO_EXIST, None), s)
                      | None \<Rightarrow>
                          (let (symlink, s1) = new_Symlink s tgt time
                           in ((ERRNO_SUCCESS, Some symlink),
                               contents_set s1 parent_entry filename symlink)))))))"

section \<open>The parser's rules in the spec's words\<close>

text \<open>
  The components of a path string are what lies between its slashes. A component is a name
  when it is not empty, not \<^verbatim>\<open>.\<close> and not \<^verbatim>\<open>..\<close>. A path ascends above the root it is
  read from when, after some number of its components, it has gone up more often than it
  has gone down into a name.
\<close>

definition is_name :: "string \<Rightarrow> bool" where
  "is_name c = (c \<noteq> '''' \<and> c \<noteq> ''.'' \<and> c \<noteq> ''..'')"

definition names_upto :: "nat \<Rightarrow> string list \<Rightarrow> nat" where
  "names_upto k cs = length (filter is_name (take k cs))"

definition dotdots_upto :: "nat \<Rightarrow> string list \<Rightarrow> nat" where
  "dotdots_upto k cs = length (filter (\<lambda>c. c = ''..'') (take k cs))"

definition ascends_above_root :: "string list \<Rightarrow> bool" where
  "ascends_above_root cs = (\<exists>k \<in> {..length cs}. names_upto k cs < dotdots_upto k cs)"

text \<open>
  The components a path retains: empty and \<^verbatim>\<open>.\<close> components are dropped, and each \<^verbatim>\<open>..\<close>
  takes back the last one retained.
\<close>

definition retain :: "string list \<Rightarrow> string \<Rightarrow> string list" where
  "retain ps c =
     (if c = '''' \<or> c = ''.'' then ps else if c = ''..'' then butlast ps else ps @ [c])"

definition retained_components :: "string list \<Rightarrow> string list" where
  "retained_components cs = foldl retain [] cs"

section \<open>A small tree, built by the constructors\<close>

text \<open>
  The store before any inode is constructed: the counter stands at its initial value and
  no cell has been filled. Its engine has the memory for every buffer the language allows.
\<close>

definition fs_initial :: fs where
  "fs_initial =
     \<lparr>files = (\<lambda>r. \<lparr>ino = 0, atim = 0, mtim = 0, ctim = 0,
                     data = empty_u8array, readonly = False\<rparr>),
      directories = (\<lambda>r. \<lparr>ino = 0, atim = 0, mtim = 0, ctim = 0,
                           contents = [], parent = None\<rparr>),
      symlinks = (\<lambda>r. \<lparr>ino = 0, atim = 0, mtim = 0, ctim = 0, target = ''''\<rparr>),
      next_ref = 0, next_ino = initial_next_ino, grants = (\<lambda>len m. True)\<rparr>"

text \<open>
  A root directory holding a read-only file \<^verbatim>\<open>ro\<close> of three bytes, an empty writable file
  \<^verbatim>\<open>f\<close>, an empty directory \<^verbatim>\<open>e\<close> and a directory \<^verbatim>\<open>d\<close> that holds a file \<^verbatim>\<open>h\<close>. The
  objects are constructed in this order, the root last, as a host builds a pre-opened
  directory from its contents.
\<close>

definition example_fs :: fs where
  "example_fs =
     (let (ro, s1) = new_File fs_initial
                       \<lparr>bytes = [1, 2, 3], maxByteLength = 3, resizable = False\<rparr> True 0;
          (f, s2) = new_File s1 empty_u8array False 0;
          (e, s3) = new_Directory s2 (Map_arg []) 0;
          (h, s4) = new_File s3 empty_u8array False 0;
          (d, s5) = new_Directory s4 (Array_arg [(''h'', h)]) 0;
          (root, s6) = new_Directory s5
                         (Map_arg [(''ro'', ro), (''f'', f), (''e'', e), (''d'', d)]) 0
      in s6)"

text \<open>The cells the constructors gave the objects of \<open>example_fs\<close>.\<close>

definition example_ro :: nat where "example_ro = 0"
definition example_f :: nat where "example_f = 1"
definition example_e :: nat where "example_e = 2"
definition example_h :: nat where "example_h = 3"
definition example_d :: nat where "example_d = 4"
definition example_root :: nat where "example_root = 5"

section \<open>What a write leaves in a buffer\<close>

text \<open>
  Growing the buffer \<open>d\<close> to \<open>n\<close> bytes asks the engine either to resize it in place, when
  it is resizable and \<open>n\<close> is within its \<^verbatim>\<open>maxByteLength\<close>, or for a new buffer of \<open>n\<close>
  bytes whose \<^verbatim>\<open>maxByteLength\<close> is the larger of \<open>n\<close> and twice the old one.
  \<open>engine_grows s d n\<close>: what is asked for is within the language's bound, and the engine
  of \<open>s\<close> grants it.
\<close>

definition engine_grows :: "fs \<Rightarrow> u8array \<Rightarrow> int \<Rightarrow> bool" where
  "engine_grows s d n =
     (if resizable d \<and> n \<le> int (maxByteLength d)
      then n \<le> max_index \<and> grants s (nat n) (maxByteLength d)
      else max n (int (maxByteLength d) * 2) \<le> max_index
           \<and> grants s (nat n) (nat (max n (int (maxByteLength d) * 2))))"

text \<open>
  The bytes of a buffer that held \<open>old\<close> after \<open>d\<close> is written at offset \<open>off\<close>: the buffer
  is first padded with zeros up to the end of the write, if it is shorter, and then \<open>d\<close>
  replaces what stood at \<open>off\<close>.
\<close>

definition written :: "byte list \<Rightarrow> byte list \<Rightarrow> nat \<Rightarrow> byte list" where
  "written old d off =
     (let grown = old @ replicate (off + length d - length old) 0
      in take off grown @ d @ drop (off + length d) grown)"

section \<open>Symlink chains\<close>

text \<open>
  The components of a parsed path are names that hold neither a slash nor a NUL.
\<close>

definition clean_component :: "string \<Rightarrow> bool" where
  "clean_component c = (is_name c \<and> CHR ''/'' \<notin> set c \<and> CHR 0x00 \<notin> set c)"

text \<open>
  \<open>hops s current ps isDir n t\<close>: read from the directory \<open>current\<close> with every symlink
  followed, the path \<open>ps\<close> leads to the inode \<open>t\<close>, which is no symlink, through exactly \<open>n\<close>
  symlinks. A symlink met on the way stands for the components of its target followed by
  the components of the path that come after it; they are read by the parser's rules as
  the spec words them (no leading slash, no NUL, no ascent above the root, the retained
  components), from the directory that holds the symlink, and as a directory when the
  path was to be one, or when nothing comes after the symlink and its target ends with a
  slash. This is the chain the spec speaks of; it says nothing of a depth counter, and
  nothing of how the code builds and parses the joined string.
\<close>

inductive hops :: "fs \<Rightarrow> nat \<Rightarrow> string list \<Rightarrow> bool \<Rightarrow> nat \<Rightarrow> inode_ref \<Rightarrow> bool" where
  hops_here: "hops s current [] isDir 0 (DirectoryRef current)"
| hops_last:
    "Map_get (contents (directories s current)) component = Some child \<Longrightarrow>
     stat_filetype child \<noteq> FILETYPE_SYMBOLIC_LINK \<Longrightarrow>
     (if isDir then stat_filetype child = FILETYPE_DIRECTORY else True) \<Longrightarrow>
     hops s current [component] isDir 0 child"
| hops_into:
    "Map_get (contents (directories s current)) component = Some (DirectoryRef d) \<Longrightarrow>
     rest \<noteq> [] \<Longrightarrow>
     hops s d rest isDir n t \<Longrightarrow>
     hops s current (component # rest) isDir n t"
| hops_follow:
    "Map_get (contents (directories s current)) component = Some (SymlinkRef l) \<Longrightarrow>
     \<not> startsWith (target (symlinks s l)) ''/'' \<Longrightarrow>
     \<not> str_includes (target (symlinks s l)) (CHR 0x00) \<Longrightarrow>
     \<not> ascends_above_root (split (target (symlinks s l)) CHR ''/'' @ rest) \<Longrightarrow>
     hops s current (retained_components (split (target (symlinks s l)) CHR ''/'' @ rest))
       (isDir \<or> (rest = [] \<and> endsWith (target (symlinks s l)) ''/'')) n t \<Longrightarrow>
     hops s current (component # rest) isDir (Suc n) t"

code_pred hops .

text \<open>
  The example tree with three symlinks added to its root by \<^verbatim>\<open>create_symlink_for_path\<close>:
  \<^verbatim>\<open>ld\<close> to the directory \<^verbatim>\<open>d\<close>, \<^verbatim>\<open>lf\<close> to \<^verbatim>\<open>ld/h\<close>, the file in \<^verbatim>\<open>d\<close> by way of the
  first symlink, and \<^verbatim>\<open>le\<close>, whose target is the empty string.
\<close>

definition example_links_fs :: fs where
  "example_links_fs =
     snd (create_symlink_for_path
            (snd (create_symlink_for_path
                    (snd (create_symlink_for_path example_fs example_root ''ld'' ''d'' 0))
                    example_root ''lf'' ''ld/h'' 0))
            example_root ''le'' '''' 0)"

definition example_ld :: nat where "example_ld = 6"
definition example_lf :: nat where "example_lf = 7"
definition example_le :: nat where "example_le = 8"

text \<open>
  A store with one directory (cell 0) that holds a chain of \<open>n\<close> symlinks and a file (cell 0
  of the files): the \<open>i\<close>-th name is \<open>i + 1\<close> letters \<^verbatim>\<open>a\<close>; the names 0 to \<open>n - 1\<close> are the
  symlinks in the cells 0 to \<open>n - 1\<close>, each with the next name as its target, and the name
  \<open>n\<close> is the file.
\<close>

definition link_name :: "nat \<Rightarrow> string" where
  "link_name i = replicate (Suc i) CHR ''a''"

definition chain_fs :: "nat \<Rightarrow> fs" where
  "chain_fs n =
     fs_initial
       \<lparr>files := (files fs_initial)
          (0 := \<lparr>ino = 1, atim = 0, mtim = 0, ctim = 0,
                  data = empty_u8array, readonly = False\<rparr>),
        directories := (directories fs_initial)
          (0 := \<lparr>ino = 2 + int n, atim = 0, mtim = 0, ctim = 0,
                  contents = map (\<lambda>i. (link_name i, SymlinkRef i)) [0..<n]
                             @ [(link_name n, FileRef 0)],
                  parent = None\<rparr>),
        symlinks := (\<lambda>i. if i < n
                         then \<lparr>ino = 2 + int i, atim = 0, mtim = 0, ctim = 0,
                               target = link_name (Suc i)\<rparr>
                         else symlinks fs_initial i),
        next_ref := Suc n, next_ino := 3 + int n\<rparr>"

section \<open>Properties of the path parser\<close>

lemma ex_atMost_Suc: "(\<exists>k \<in> {..Suc n}. P k) \<longleftrightarrow> P 0 \<or> (\<exists>j \<in> {..n}. P (Suc j))"
proof
  assume "\<exists>k \<in> {..Suc n}. P k"
  then obtain k where k: "k \<le> Suc n" "P k" by auto
  show "P 0 \<or> (\<exists>j \<in> {..n}. P (Suc j))"
  proof (cases k)
    case 0
    with k show ?thesis by simp
  next
    case (Suc j)
    with k show ?thesis by auto
  qed
next
  assume "P 0 \<or> (\<exists>j \<in> {..n}. P (Suc j))"
  then show "\<exists>k \<in> {..Suc n}. P k" by auto
qed

lemma ascend_step:
  "(\<exists>k \<in> {..length (c # cs)}. n + names_upto k (c # cs) < dotdots_upto k (c # cs)) \<longleftrightarrow>
   (\<exists>j \<in> {..length cs}. n + names_upto (Suc j) (c # cs) < dotdots_upto (Suc j) (c # cs))"
proof -
  have "\<not> n + names_upto 0 (c # cs) < dotdots_upto 0 (c # cs)"
    by (simp add: names_upto_def dotdots_upto_def)
  then show ?thesis
    unfolding length_Cons ex_atMost_Suc by blast
qed

lemma from_loop_None_iff:
  "from_loop cs ps = None \<longleftrightarrow>
     (\<exists>k \<in> {..length cs}. length ps + names_upto k cs < dotdots_upto k cs)"
proof (induction cs arbitrary: ps)
  case Nil
  show ?case by (simp add: names_upto_def dotdots_upto_def)
next
  case (Cons c cs)
  consider (skip) "c = '''' \<or> c = ''.''" | (up) "c = ''..''" | (name) "is_name c"
    by (auto simp: is_name_def)
  then show ?case
  proof cases
    case skip
    then have "from_loop (c # cs) ps = from_loop cs ps" by auto
    moreover from skip have "\<And>j. names_upto (Suc j) (c # cs) = names_upto j cs"
      "\<And>j. dotdots_upto (Suc j) (c # cs) = dotdots_upto j cs"
      by (auto simp: names_upto_def dotdots_upto_def is_name_def)
    ultimately show ?thesis
      using Cons.IH [of ps] by (simp only: ascend_step)
  next
    case up
    have cnt: "\<And>j. names_upto (Suc j) (c # cs) = names_upto j cs"
      "\<And>j. dotdots_upto (Suc j) (c # cs) = Suc (dotdots_upto j cs)"
      using up by (auto simp: names_upto_def dotdots_upto_def is_name_def)
    show ?thesis
    proof (cases "ps = []")
      case True
      then have "from_loop (c # cs) ps = None" using up by simp
      moreover have "length ps + names_upto (Suc 0) (c # cs) < dotdots_upto (Suc 0) (c # cs)"
        using True up by (simp add: names_upto_def dotdots_upto_def is_name_def)
      then have "\<exists>j \<in> {..length cs}. length ps + names_upto (Suc j) (c # cs) < dotdots_upto (Suc j) (c # cs)"
        by (intro bexI [of _ 0]) auto
      ultimately show ?thesis by (simp only: ascend_step) simp
    next
      case False
      then have "from_loop (c # cs) ps = from_loop cs (butlast ps)" using up by simp
      moreover have "length ps = Suc (length (butlast ps))" using False by simp
      then have "\<And>j. (length ps + names_upto j cs < Suc (dotdots_upto j cs)) =
                     (length (butlast ps) + names_upto j cs < dotdots_upto j cs)"
        by arith
      ultimately show ?thesis
        using Cons.IH [of "butlast ps"] by (simp only: ascend_step cnt)
    qed
  next
    case name
    then have "from_loop (c # cs) ps = from_loop cs (ps @ [c])" by (auto simp: is_name_def)
    moreover from name have "\<And>j. names_upto (Suc j) (c # cs) = Suc (names_upto j cs)"
      "\<And>j. dotdots_upto (Suc j) (c # cs) = dotdots_upto j cs"
      by (auto simp: names_upto_def dotdots_upto_def is_name_def)
    ultimately show ?thesis
      using Cons.IH [of "ps @ [c]"] by (simp only: ascend_step) simp
  qed
qed

lemma from_loop_Some_foldl:
  "from_loop cs ps = Some r \<Longrightarrow> r = foldl retain ps cs"
  by (induction cs arbitrary: ps) (auto simp: retain_def split: if_splits)

text \<open>
  Claim C1. The parser applies its rules in order. A string that starts with a slash is
  rejected with NOTCAPABLE; otherwise one that holds a NUL is rejected with INVAL;
  otherwise the string is split at its slashes, and it is rejected with NOTCAPABLE exactly
  when its \<^verbatim>\<open>..\<close> components ascend above the root: after some number of components,
  more \<^verbatim>\<open>..\<close> than names. Otherwise the parser succeeds with the retained components
  (empty and \<^verbatim>\<open>.\<close> dropped, each \<^verbatim>\<open>..\<close> taking back the last one retained) and with the
  flag that says whether the string ended with a slash. The parser is a function of the
  string alone: no directory tree is among its arguments, so its answer cannot depend on
  which components exist.
\<close>

theorem Path_from_rules:
  "Path_from p =
     (if startsWith p ''/'' then (ERRNO_NOTCAPABLE, None)
      else if str_includes p (CHR 0x00) then (ERRNO_INVAL, None)
      else if ascends_above_root (split p CHR ''/'') then (ERRNO_NOTCAPABLE, None)
      else (ERRNO_SUCCESS,
            Some \<lparr>parts = retained_components (split p CHR ''/''), is_dir = endsWith p ''/''\<rparr>))"
proof (cases "from_loop (split p CHR ''/'') []")
  case None
  then have "ascends_above_root (split p CHR ''/'')"
    using from_loop_None_iff [of "split p CHR ''/''" "[]"] by (simp add: ascends_above_root_def)
  with None show ?thesis by (simp add: Path_from_def)
next
  case (Some r)
  then have "\<not> ascends_above_root (split p CHR ''/'')"
    using from_loop_None_iff [of "split p CHR ''/''" "[]"] by (simp add: ascends_above_root_def)
  moreover have "r = retained_components (split p CHR ''/'')"
    using from_loop_Some_foldl [OF Some] by (simp add: retained_components_def)
  ultimately show ?thesis using Some by (simp add: Path_from_def)
qed

theorem Path_from_rules_witness:
  "Path_from ''/a'' = (ERRNO_NOTCAPABLE, None)
   \<and> Path_from [CHR ''a'', CHR 0x00, CHR ''/''] = (ERRNO_INVAL, None)
   \<and> Path_from ''a/../..'' = (ERRNO_NOTCAPABLE, None)
   \<and> Path_from ''a/./b/../c/'' = (ERRNO_SUCCESS, Some \<lparr>parts = [''a'', ''c''], is_dir = True\<rparr>)
   \<and> Path_from ''a//b'' = (ERRNO_SUCCESS, Some \<lparr>parts = [''a'', ''b''], is_dir = False\<rparr>)"
  using Path_from_rules [of "''/a''"] Path_from_rules [of "[CHR ''a'', CHR 0x00, CHR ''/'']"]
    Path_from_rules [of "''a/../..''"] Path_from_rules [of "''a/./b/../c/''"]
    Path_from_rules [of "''a//b''"]
  by (simp add: startsWith_def str_includes_def endsWith_def ascends_above_root_def
      names_upto_def dotdots_upto_def is_name_def atMost_upto retained_components_def retain_def)

section \<open>Facts about the example tree\<close>

lemmas ex_defs = example_fs_def fs_initial_def new_File_def new_Directory_def new_Symlink_def issue_ino_def
  initial_next_ino_def set_parent_def empty_u8array_def new_Map_def

lemma example_fs_cells:
  "contents (directories example_fs example_root) =
     [(''ro'', FileRef example_ro), (''f'', FileRef example_f),
      (''e'', DirectoryRef example_e), (''d'', DirectoryRef example_d)]"
  "parent (directories example_fs example_root) = None"
  "ino (directories example_fs example_root) = 6"
  "ino (files example_fs example_ro) = 1"
  "contents (directories example_fs example_d) = [(''h'', FileRef example_h)]"
  "parent (directories example_fs example_d) = Some example_root"
  "contents (directories example_fs example_e) = []"
  "parent (directories example_fs example_e) = Some example_root"
  "data (files example_fs example_ro) = \<lparr>bytes = [1, 2, 3], maxByteLength = 3, resizable = False\<rparr>"
  "readonly (files example_fs example_ro)"
  "data (files example_fs example_f) = empty_u8array"
  "\<not> readonly (files example_fs example_f)"
  "next_ino example_fs = 7"
  "next_ref example_fs = 6"
  "grants example_fs len m"
  by (simp_all add: ex_defs example_ro_def example_f_def example_e_def example_h_def
      example_d_def example_root_def)

section \<open>Properties of the parent lookup and of linking\<close>

lemma Path_from_is_dir:
  "Path_from path_str = (r, Some path) \<Longrightarrow> is_dir path = endsWith path_str ''/''"
  by (auto simp: Path_from_def split: if_splits option.splits)

lemma Path_from_reject:
  "Path_from path_str = (r, None) \<Longrightarrow> r = ERRNO_NOTCAPABLE \<or> r = ERRNO_INVAL"
  by (auto simp: Path_from_def split: if_splits option.splits)

lemma get_parent_path:
  "fst (get_parent_dir_and_entry_for_path s this p allow_undefined) =
     (if parts p = [] then p else p\<lparr>parts := butlast (parts p)\<rparr>)"
  by (simp add: get_parent_dir_and_entry_for_path_def Let_def
      split: prod.splits option.splits inode_ref.splits)

text \<open>
  Claim C9, as amended. The parent lookup pops the last component off the caller's own
  \<^verbatim>\<open>Path\<close>, not off a copy: for a path with at least one component, the path after the
  call has the components it had before without the last one, and the same directory
  flag; so it is not the path it was.
\<close>

theorem get_parent_pops_callers_path:
  "parts p \<noteq> [] \<Longrightarrow>
     parts (fst (get_parent_dir_and_entry_for_path s this p allow_undefined)) = butlast (parts p)
     \<and> is_dir (fst (get_parent_dir_and_entry_for_path s this p allow_undefined)) = is_dir p
     \<and> fst (get_parent_dir_and_entry_for_path s this p allow_undefined) \<noteq> p"
proof -
  assume ne: "parts p \<noteq> []"
  let ?p' = "fst (get_parent_dir_and_entry_for_path s this p allow_undefined)"
  have eq: "?p' = p\<lparr>parts := butlast (parts p)\<rparr>"
    using ne by (simp add: get_parent_path)
  have "length (parts ?p') < length (parts p)"
    using ne by (simp add: eq)
  then have "?p' \<noteq> p" by auto
  with eq show ?thesis by simp
qed

lemma path_link_error_frame:
  "fst (path_link s dir path_str inode allow_dir) \<noteq> ERRNO_SUCCESS \<Longrightarrow>
   snd (path_link s dir path_str inode allow_dir) = s"
  by (auto simp: path_link_def Let_def split: prod.splits option.splits if_splits inode_ref.splits)


lemma map_of_Map_set: "map_of (Map_set m k v) = (map_of m)(k \<mapsto> v)"
  by (induction m) (auto simp: fun_eq_iff)

lemma Map_get_Map_set: "Map_get (Map_set m k v) k' = (if k' = k then Some v else Map_get m k')"
  by (simp add: Map_get_def map_of_Map_set)

lemma Map_set_present: "map_of m k = Some v0 \<Longrightarrow> map fst (Map_set m k v) = map fst m"
  by (induction m) (auto split: if_splits)


lemma get_parent_entry:
  "get_parent_dir_and_entry_for_path s this p allow_undefined =
     (path1, parent_ret, Some parent_entry, Some filename, entry) \<Longrightarrow>
   Map_get (contents (directories s parent_entry)) filename = entry"
  by (auto simp: get_parent_dir_and_entry_for_path_def Let_def
      split: if_splits prod.splits option.splits inode_ref.splits)


lemma resolve_path_from_null:
  "resolve_path_from s current ps isDir followFinal depth = (r, None) \<Longrightarrow> r \<noteq> ERRNO_SUCCESS"
proof (induction s current ps isDir followFinal depth rule: resolve_path_from.induct)
  case (1 s current isDir followFinal depth)
  then show ?case by (auto split: if_splits)
next
  case (2 s current component rest isDir followFinal depth)
  show ?case
  proof (cases "Map_get (contents (directories s current)) component")
    case None
    with "2.prems" show ?thesis by simp
  next
    case (Some child)
    show ?thesis
    proof (cases child)
      case (FileRef f)
      with Some "2.prems" show ?thesis by (auto split: if_splits)
    next
      case (DirectoryRef d)
      with Some "2.prems" "2.IH"(2) [of child d] show ?thesis
        by (auto split: if_splits)
    next
      case (SymlinkRef l)
      with Some "2.prems" "2.IH"(3) [of child l] show ?thesis
        by (auto split: if_splits prod.splits option.splits
            dest: Path_from_reject)
    qed
  qed
qed

lemma get_parent_null:
  "get_parent_dir_and_entry_for_path s this p allow_undefined =
     (path1, parent_ret, parent_entry, filename, entry) \<Longrightarrow>
   parent_entry = None \<or> filename = None \<Longrightarrow> parent_ret \<noteq> ERRNO_SUCCESS"
  by (auto simp: get_parent_dir_and_entry_for_path_def Let_def
      split: if_splits prod.splits option.splits inode_ref.splits
      dest: resolve_path_from_null)

text \<open>
  Claim C5, as amended. Linking a directory with \<^verbatim>\<open>allow_dir\<close> false never succeeds and
  leaves the store as it was. Where the path parses, has no trailing slash and its parent
  resolves, the errno is PERM when the name is free, EXIST when a directory stands there
  and NOTDIR when anything else does: the overwrite checks come before the PERM check.
\<close>

theorem path_link_directory_not_allowed:
  "fst (path_link s dir path_str (DirectoryRef d) False) \<noteq> ERRNO_SUCCESS
   \<and> snd (path_link s dir path_str (DirectoryRef d) False) = s
   \<and> (Path_from path_str = (r, Some path) \<and> \<not> is_dir path
        \<and> get_parent_dir_and_entry_for_path s dir path True =
            (path1, parent_ret, Some parent_entry, Some filename, entry)
      \<longrightarrow> fst (path_link s dir path_str (DirectoryRef d) False) =
            (case entry of
               None \<Rightarrow> ERRNO_PERM
             | Some (DirectoryRef ed) \<Rightarrow> ERRNO_EXIST
             | Some _ \<Rightarrow> ERRNO_NOTDIR))"
proof -
  have never: "fst (path_link s dir path_str (DirectoryRef d) False) \<noteq> ERRNO_SUCCESS"
    by (auto simp: path_link_def Let_def stat_filetype_def
        split: prod.splits option.splits if_splits inode_ref.splits
        dest: Path_from_reject get_parent_null)
  then have frame: "snd (path_link s dir path_str (DirectoryRef d) False) = s"
    by (rule path_link_error_frame)
  have "fst (path_link s dir path_str (DirectoryRef d) False) =
          (case entry of
             None \<Rightarrow> ERRNO_PERM
           | Some (DirectoryRef ed) \<Rightarrow> ERRNO_EXIST
           | Some _ \<Rightarrow> ERRNO_NOTDIR)"
    if "Path_from path_str = (r, Some path)" "\<not> is_dir path"
      "get_parent_dir_and_entry_for_path s dir path True =
         (path1, parent_ret, Some parent_entry, Some filename, entry)"
    using that
    by (simp add: path_link_def stat_filetype_def split: option.splits inode_ref.splits)
  with never frame show ?thesis by blast
qed


text \<open>
  Claim C10, as amended. For a path string that ends with a slash, \<^verbatim>\<open>path_link\<close> returns
  NOENT when the parser accepts the string, and the parser's own error (NOTCAPABLE or
  INVAL) when it rejects it; either way whatever the store, the inode and the flag are,
  and the store is left as it was.
\<close>

theorem path_link_trailing_slash:
  "endsWith path_str ''/'' \<Longrightarrow>
     (snd (Path_from path_str) \<noteq> None \<longrightarrow>
        path_link s dir path_str inode allow_dir = (ERRNO_NOENT, s))
     \<and> (snd (Path_from path_str) = None \<longrightarrow>
        path_link s dir path_str inode allow_dir = (fst (Path_from path_str), s)
        \<and> (fst (Path_from path_str) = ERRNO_NOTCAPABLE \<or> fst (Path_from path_str) = ERRNO_INVAL))"
proof (cases "Path_from path_str")
  case (Pair r po)
  assume slash: "endsWith path_str ''/''"
  show ?thesis
  proof (cases po)
    case None
    with Pair Path_from_reject [of path_str r] show ?thesis
      by (simp add: path_link_def)
  next
    case (Some path)
    with Pair slash Path_from_is_dir [of path_str r path] show ?thesis
      by (simp add: path_link_def)
  qed
qed

text \<open>
  Claim C4, as amended. Let the path parse, have no trailing slash, and its parent lookup
  find an entry at the name. Linking a directory over a directory that is not empty fails
  with NOTEMPTY when \<^verbatim>\<open>allow_dir\<close> is true and with EXIST when it is false; over an empty
  directory with \<^verbatim>\<open>allow_dir\<close> true it succeeds: the name, where it stood, now refers to the
  linked directory, whose parent is the directory of the name. A directory over anything
  else fails with NOTDIR; anything else over a directory fails with ISDIR. A file over a
  file succeeds: the name, where it stood, refers to the very reference that was passed,
  and no file object is touched. Whenever the call fails, the store is as it was.
\<close>

theorem path_link_overwrite_matrix:
  assumes "Path_from path_str = (r, Some path)" and "\<not> is_dir path"
    and "get_parent_dir_and_entry_for_path s dir path True =
           (path1, parent_ret, Some parent_entry, Some filename, Some entry)"
  shows
    "(inode = DirectoryRef d \<and> entry = DirectoryRef ed \<and> contents (directories s ed) \<noteq> [] \<longrightarrow>
        path_link s dir path_str inode allow_dir =
          (if allow_dir then ERRNO_NOTEMPTY else ERRNO_EXIST, s))
     \<and> (inode = DirectoryRef d \<and> entry = DirectoryRef ed \<and> contents (directories s ed) = []
          \<and> allow_dir \<longrightarrow>
        fst (path_link s dir path_str inode allow_dir) = ERRNO_SUCCESS
        \<and> Map_get (contents (directories (snd (path_link s dir path_str inode allow_dir))
                      parent_entry)) filename = Some inode
        \<and> map fst (contents (directories (snd (path_link s dir path_str inode allow_dir))
                      parent_entry)) = map fst (contents (directories s parent_entry))
        \<and> parent (directories (snd (path_link s dir path_str inode allow_dir)) d)
            = Some parent_entry)
     \<and> (stat_filetype inode = FILETYPE_DIRECTORY \<and> stat_filetype entry \<noteq> FILETYPE_DIRECTORY \<longrightarrow>
        path_link s dir path_str inode allow_dir = (ERRNO_NOTDIR, s))
     \<and> (stat_filetype inode \<noteq> FILETYPE_DIRECTORY \<and> stat_filetype entry = FILETYPE_DIRECTORY \<longrightarrow>
        path_link s dir path_str inode allow_dir = (ERRNO_ISDIR, s))
     \<and> (inode = FileRef f \<and> entry = FileRef g \<longrightarrow>
        path_link s dir path_str inode allow_dir =
          (ERRNO_SUCCESS, contents_set s parent_entry filename (FileRef f))
        \<and> Map_get (contents (directories (snd (path_link s dir path_str inode allow_dir))
                      parent_entry)) filename = Some (FileRef f)
        \<and> map fst (contents (directories (snd (path_link s dir path_str inode allow_dir))
                      parent_entry)) = map fst (contents (directories s parent_entry))
        \<and> files (snd (path_link s dir path_str inode allow_dir)) = files s)
     \<and> (fst (path_link s dir path_str inode allow_dir) \<noteq> ERRNO_SUCCESS \<longrightarrow>
        snd (path_link s dir path_str inode allow_dir) = s)"
proof -
  let ?res = "path_link s dir path_str inode allow_dir"
  have occupied: "map_of (contents (directories s parent_entry)) filename = Some entry"
    using get_parent_entry [OF assms(3)] by (simp add: Map_get_def)
  have k1: "inode = DirectoryRef d \<and> entry = DirectoryRef ed \<and> contents (directories s ed) \<noteq> [] \<longrightarrow>
        ?res = (if allow_dir then ERRNO_NOTEMPTY else ERRNO_EXIST, s)"
    using assms by (simp add: path_link_def stat_filetype_def Map_size_def)
  have c2: "?res = (ERRNO_SUCCESS,
               contents_set (set_parent s d (Some parent_entry)) parent_entry filename inode)"
    if "inode = DirectoryRef d" "entry = DirectoryRef ed" "contents (directories s ed) = []"
      "allow_dir"
    using assms that by (simp add: path_link_def stat_filetype_def Map_size_def)
  have k2: "inode = DirectoryRef d \<and> entry = DirectoryRef ed \<and> contents (directories s ed) = []
          \<and> allow_dir \<longrightarrow>
        fst ?res = ERRNO_SUCCESS
        \<and> Map_get (contents (directories (snd ?res) parent_entry)) filename = Some inode
        \<and> map fst (contents (directories (snd ?res) parent_entry))
            = map fst (contents (directories s parent_entry))
        \<and> parent (directories (snd ?res) d) = Some parent_entry"
  proof (intro impI, elim conjE)
    assume h: "inode = DirectoryRef d" "entry = DirectoryRef ed"
      "contents (directories s ed) = []" "allow_dir"
    show "fst ?res = ERRNO_SUCCESS
        \<and> Map_get (contents (directories (snd ?res) parent_entry)) filename = Some inode
        \<and> map fst (contents (directories (snd ?res) parent_entry))
            = map fst (contents (directories s parent_entry))
        \<and> parent (directories (snd ?res) d) = Some parent_entry"
      unfolding c2 [OF h] using occupied
      by (simp add: contents_set_def set_parent_def Map_get_Map_set Map_set_present)
  qed
  have k3: "stat_filetype inode = FILETYPE_DIRECTORY \<and> stat_filetype entry \<noteq> FILETYPE_DIRECTORY \<longrightarrow>
        ?res = (ERRNO_NOTDIR, s)"
    using assms by (simp add: path_link_def)
  have k4: "stat_filetype inode \<noteq> FILETYPE_DIRECTORY \<and> stat_filetype entry = FILETYPE_DIRECTORY \<longrightarrow>
        ?res = (ERRNO_ISDIR, s)"
    using assms by (simp add: path_link_def)
  have c5: "?res = (ERRNO_SUCCESS, contents_set s parent_entry filename (FileRef f))"
    if "inode = FileRef f" "entry = FileRef g"
    using assms that by (simp add: path_link_def stat_filetype_def)
  have k5: "inode = FileRef f \<and> entry = FileRef g \<longrightarrow>
        ?res = (ERRNO_SUCCESS, contents_set s parent_entry filename (FileRef f))
        \<and> Map_get (contents (directories (snd ?res) parent_entry)) filename = Some (FileRef f)
        \<and> map fst (contents (directories (snd ?res) parent_entry))
            = map fst (contents (directories s parent_entry))
        \<and> files (snd ?res) = files s"
  proof (intro impI, elim conjE)
    assume h: "inode = FileRef f" "entry = FileRef g"
    show "?res = (ERRNO_SUCCESS, contents_set s parent_entry filename (FileRef f))
        \<and> Map_get (contents (directories (snd ?res) parent_entry)) filename = Some (FileRef f)
        \<and> map fst (contents (directories (snd ?res) parent_entry))
            = map fst (contents (directories s parent_entry))
        \<and> files (snd ?res) = files s"
      unfolding c5 [OF h] using occupied
      by (simp add: contents_set_def Map_get_Map_set Map_set_present)
  qed
  have k6: "fst ?res \<noteq> ERRNO_SUCCESS \<longrightarrow> snd ?res = s"
    by (intro impI) (rule path_link_error_frame)
  from k1 k2 k3 k4 k5 k6 show ?thesis by (intro conjI)
qed






lemmas path_eval = Path_from_def startsWith_def str_includes_def endsWith_def
  get_parent_dir_and_entry_for_path_def Map_get_def stat_filetype_def Map_size_def
  example_fs_cells

theorem get_parent_pops_callers_path_witness:
  "parts \<lparr>parts = [''d'', ''h''], is_dir = False\<rparr> \<noteq> []
   \<and> parts (fst (get_parent_dir_and_entry_for_path example_fs example_root
                 \<lparr>parts = [''d'', ''h''], is_dir = False\<rparr> True)) = [''d'']
   \<and> is_dir (fst (get_parent_dir_and_entry_for_path example_fs example_root
                 \<lparr>parts = [''d'', ''h''], is_dir = False\<rparr> True)) = False"
  using get_parent_pops_callers_path
    [of "\<lparr>parts = [''d'', ''h''], is_dir = False\<rparr>" example_fs example_root True]
  by simp

theorem get_parent_leaves_path_counterexample:
  "fst (get_parent_dir_and_entry_for_path example_fs example_root
          \<lparr>parts = [''d'', ''h''], is_dir = False\<rparr> True)
   \<noteq> \<lparr>parts = [''d'', ''h''], is_dir = False\<rparr>"
  by (simp add: get_parent_path)

theorem path_link_trailing_slash_witness:
  "endsWith ''d/'' ''/''
   \<and> path_link example_fs example_root ''d/'' (FileRef example_f) False
       = (ERRNO_NOENT, example_fs)
   \<and> endsWith ''../'' ''/''
   \<and> path_link example_fs example_root ''../'' (FileRef example_f) False
       = (ERRNO_NOTCAPABLE, example_fs)"
  using path_link_trailing_slash [of "''d/''" example_fs example_root "FileRef example_f" False]
    path_link_trailing_slash [of "''../''" example_fs example_root "FileRef example_f" False]
  by (simp add: path_eval)

theorem path_link_trailing_slash_counterexample:
  "endsWith ''/'' ''/''
   \<and> path_link example_fs example_root ''/'' (FileRef example_f) False
       = (ERRNO_NOTCAPABLE, example_fs)
   \<and> fst (path_link example_fs example_root ''/'' (FileRef example_f) False) \<noteq> ERRNO_NOENT"
  by (simp add: path_link_def path_eval)

theorem path_link_directory_not_allowed_witness:
  "fst (path_link example_fs example_root ''n'' (DirectoryRef example_e) False) = ERRNO_PERM
   \<and> snd (path_link example_fs example_root ''n'' (DirectoryRef example_e) False) = example_fs"
  using path_link_directory_not_allowed
    [of example_fs example_root "''n''" example_e ERRNO_SUCCESS
       "\<lparr>parts = [''n''], is_dir = False\<rparr>" "\<lparr>parts = [], is_dir = False\<rparr>"
       ERRNO_SUCCESS example_root "''n''" None]
  by (simp add: path_eval)

theorem path_link_directory_not_allowed_counterexample:
  "path_link example_fs example_root ''f'' (DirectoryRef example_e) False
     = (ERRNO_NOTDIR, example_fs)
   \<and> fst (path_link example_fs example_root ''f'' (DirectoryRef example_e) False) \<noteq> ERRNO_PERM"
  by (simp add: path_link_def path_eval)

theorem path_link_overwrite_matrix_witness:
  "path_link example_fs example_root ''f'' (FileRef example_h) False
     = (ERRNO_SUCCESS, contents_set example_fs example_root ''f'' (FileRef example_h))
   \<and> Map_get (contents (directories
        (snd (path_link example_fs example_root ''f'' (FileRef example_h) False)) example_root))
        ''f'' = Some (FileRef example_h)
   \<and> path_link example_fs example_root ''d'' (DirectoryRef example_e) True
     = (ERRNO_NOTEMPTY, example_fs)
   \<and> fst (path_link example_fs example_root ''e'' (DirectoryRef example_d) True) = ERRNO_SUCCESS
   \<and> path_link example_fs example_root ''f'' (DirectoryRef example_d) True
     = (ERRNO_NOTDIR, example_fs)
   \<and> path_link example_fs example_root ''d'' (FileRef example_f) True
     = (ERRNO_ISDIR, example_fs)"
  using path_link_overwrite_matrix
    [of "''f''" ERRNO_SUCCESS "\<lparr>parts = [''f''], is_dir = False\<rparr>" example_fs example_root
       "\<lparr>parts = [], is_dir = False\<rparr>" ERRNO_SUCCESS example_root "''f''"
       "FileRef example_f" "FileRef example_h" _ _ False example_h example_f]
    path_link_overwrite_matrix
    [of "''d''" ERRNO_SUCCESS "\<lparr>parts = [''d''], is_dir = False\<rparr>" example_fs example_root
       "\<lparr>parts = [], is_dir = False\<rparr>" ERRNO_SUCCESS example_root "''d''"
       "DirectoryRef example_d" "DirectoryRef example_e" example_e example_d True]
    path_link_overwrite_matrix
    [of "''e''" ERRNO_SUCCESS "\<lparr>parts = [''e''], is_dir = False\<rparr>" example_fs example_root
       "\<lparr>parts = [], is_dir = False\<rparr>" ERRNO_SUCCESS example_root "''e''"
       "DirectoryRef example_e" "DirectoryRef example_d" example_d example_e True]
    path_link_overwrite_matrix
    [of "''f''" ERRNO_SUCCESS "\<lparr>parts = [''f''], is_dir = False\<rparr>" example_fs example_root
       "\<lparr>parts = [], is_dir = False\<rparr>" ERRNO_SUCCESS example_root "''f''"
       "FileRef example_f" "DirectoryRef example_d" _ _ True]
    path_link_overwrite_matrix
    [of "''d''" ERRNO_SUCCESS "\<lparr>parts = [''d''], is_dir = False\<rparr>" example_fs example_root
       "\<lparr>parts = [], is_dir = False\<rparr>" ERRNO_SUCCESS example_root "''d''"
       "DirectoryRef example_d" "FileRef example_f" _ _ True]
  by (simp add: path_eval contents_set_def)

theorem path_link_overwrite_matrix_counterexample:
  "contents (directories example_fs example_d) \<noteq> []
   \<and> path_link example_fs example_root ''d'' (DirectoryRef example_e) False
       = (ERRNO_EXIST, example_fs)
   \<and> fst (path_link example_fs example_root ''d'' (DirectoryRef example_e) False)
       \<noteq> ERRNO_NOTEMPTY"
  by (simp add: path_link_def path_eval)



section \<open>Properties of reading and writing\<close>

lemma dataResize_grow:
  assumes "byteLength d < n" and "engine_grows s d n"
  shows "\<exists>d'. dataResize (grants s) d n = Inr d'
           \<and> bytes d' = bytes d @ replicate (nat n - length (bytes d)) 0"
proof -
  from assms(1) have n: "0 \<le> n" "length (bytes d) \<le> nat n" "byteLength d \<noteq> n"
    "\<not> n < byteLength d"
    by (auto simp: byteLength_def)
  show ?thesis
  proof (cases "resizable d \<and> n \<le> int (maxByteLength d)")
    case True
    with assms(2) have "n \<le> max_index" "grants s (nat n) (maxByteLength d)"
      by (simp_all add: engine_grows_def)
    with True n show ?thesis
      by (simp add: dataResize_def buffer_resize_def)
  next
    case False
    let ?m = "max n (int (maxByteLength d) * 2)"
    from assms(2) have g: "?m \<le> max_index" "grants s (nat n) (nat ?m)"
      unfolding engine_grows_def if_not_P [OF False] by blast+
    then have "n \<le> max_index" "0 \<le> ?m" "n \<le> ?m" using n(1) by simp_all
    with g n(1) have "new_ArrayBuffer (grants s) n ?m =
        Inr \<lparr>bytes = replicate (nat n) 0, maxByteLength = nat ?m, resizable = True\<rparr>"
      by (simp add: new_ArrayBuffer_def)
    with False n show ?thesis
      by (auto simp: dataResize_def)
  qed
qed

lemma dataResize_refused:
  assumes "byteLength d < n" and "\<not> engine_grows s d n"
  shows "dataResize (grants s) d n = Inl RangeError"
proof -
  from assms(1) have n: "0 \<le> n" "byteLength d \<noteq> n" "\<not> n < byteLength d"
    by (auto simp: byteLength_def)
  show ?thesis
  proof (cases "resizable d \<and> n \<le> int (maxByteLength d)")
    case True
    with assms(2) have "\<not> (n \<le> max_index \<and> grants s (nat n) (maxByteLength d))"
      by (simp add: engine_grows_def)
    with True n show ?thesis
      by (auto simp: dataResize_def buffer_resize_def)
  next
    case False
    let ?m = "max n (int (maxByteLength d) * 2)"
    from assms(2) have "\<not> (?m \<le> max_index \<and> grants s (nat n) (nat ?m))"
      unfolding engine_grows_def if_not_P [OF False] .
    then have "new_ArrayBuffer (grants s) n ?m = Inl RangeError"
      by (auto simp: new_ArrayBuffer_def)
    with False n show ?thesis
      by (auto simp: dataResize_def)
  qed
qed

lemma u8_set_fits:
  assumes "0 \<le> offset" and "offset + int (length src) \<le> byteLength d"
  shows "u8_set d src offset =
           Inr (d\<lparr>bytes := take (nat offset) (bytes d) @ src
                      @ drop (nat offset + length src) (bytes d)\<rparr>)"
  using assms by (simp add: u8_set_def)

lemma fd_pwrite_bytes:
  assumes "\<not> readonly (files s (file_of fd))" and "0 \<le> offset"
    and "File_size s (file_of fd) < offset + int (length d) \<Longrightarrow>
           engine_grows s (data (files s (file_of fd))) (offset + int (length d))"
  shows "\<exists>s1. fd_pwrite s fd d offset = (Inr (ERRNO_SUCCESS, int (length d)), s1)
           \<and> bytes (data (files s1 (file_of fd)))
               = written (bytes (data (files s (file_of fd)))) d (nat offset)
           \<and> readonly (files s1 (file_of fd)) = readonly (files s (file_of fd))"
proof (cases "offset + int (length d) > File_size s (file_of fd)")
  case True
  let ?old = "data (files s (file_of fd))"
  obtain d1 where d1: "dataResize (grants s) ?old (offset + int (length d)) = Inr d1"
    "bytes d1 = bytes ?old @ replicate (nat (offset + int (length d)) - length (bytes ?old)) 0"
    using dataResize_grow [of ?old "offset + int (length d)" s] True assms(3)
    by (auto simp: File_size_def)
  have len: "byteLength d1 = offset + int (length d)"
    using d1(2) True assms(2) by (simp add: byteLength_def File_size_def)
  have set: "u8_set d1 d offset =
           Inr (d1\<lparr>bytes := take (nat offset) (bytes d1) @ d
                      @ drop (nat offset + length d) (bytes d1)\<rparr>)"
    using u8_set_fits [of offset d d1] assms(2) len by simp
  have n: "nat (offset + int (length d)) = nat offset + length d"
    using assms(2) by (simp add: nat_add_distrib)
  show ?thesis
    using assms(1,2) True d1 set n
    by (simp add: fd_pwrite_def assign_data_def written_def Let_def)
next
  case False
  let ?old = "data (files s (file_of fd))"
  from False have fits: "offset + int (length d) \<le> byteLength ?old"
    by (simp add: File_size_def)
  have set: "u8_set ?old d offset =
           Inr (?old\<lparr>bytes := take (nat offset) (bytes ?old) @ d
                        @ drop (nat offset + length d) (bytes ?old)\<rparr>)"
    using u8_set_fits [OF assms(2) fits] .
  have "nat offset + length d \<le> length (bytes ?old)"
    using fits assms(2) by (simp add: byteLength_def)
  then show ?thesis
    using assms(1,2) False set
    by (simp add: fd_pwrite_def assign_data_def written_def Let_def)
qed

lemma fd_write_as_pwrite:
  "\<not> readonly (files s (file_of fd)) \<Longrightarrow>
   fd_write s fd d =
     (case fd_pwrite s fd d (file_pos fd) of
        (Inl e, s') \<Rightarrow> (Inl e, fd, s')
      | (Inr r, s') \<Rightarrow> (Inr r, fd\<lparr>file_pos := file_pos fd + int (length d)\<rparr>, s'))"
  by (simp add: fd_write_def fd_pwrite_def split: sum.splits)

lemma fd_write_bytes:
  assumes "\<not> readonly (files s (file_of fd))" and "0 \<le> file_pos fd"
    and "File_size s (file_of fd) < file_pos fd + int (length d) \<Longrightarrow>
           engine_grows s (data (files s (file_of fd))) (file_pos fd + int (length d))"
  shows "\<exists>s1. fd_write s fd d =
             (Inr (ERRNO_SUCCESS, int (length d)),
              fd\<lparr>file_pos := file_pos fd + int (length d)\<rparr>, s1)
           \<and> bytes (data (files s1 (file_of fd)))
               = written (bytes (data (files s (file_of fd)))) d (nat (file_pos fd))
           \<and> readonly (files s1 (file_of fd)) = readonly (files s (file_of fd))"
proof -
  obtain s1 where s1: "fd_pwrite s fd d (file_pos fd) = (Inr (ERRNO_SUCCESS, int (length d)), s1)"
    "bytes (data (files s1 (file_of fd)))
               = written (bytes (data (files s (file_of fd)))) d (nat (file_pos fd))"
    "readonly (files s1 (file_of fd)) = readonly (files s (file_of fd))"
    using fd_pwrite_bytes [OF assms] by blast
  with fd_write_as_pwrite [OF assms(1), of d] show ?thesis by simp
qed

lemma fd_pwrite_refused:
  assumes "\<not> readonly (files s (file_of fd))"
    and "File_size s (file_of fd) < offset + int (length d)"
    and "\<not> engine_grows s (data (files s (file_of fd))) (offset + int (length d))"
  shows "fd_pwrite s fd d offset = (Inl RangeError, s)"
  using assms dataResize_refused [of "data (files s (file_of fd))" "offset + int (length d)" s]
  by (simp add: fd_pwrite_def File_size_def)

lemma u8_slice_nonneg:
  assumes "0 \<le> start" and "0 \<le> n"
  shows "u8_slice d start (start + n) = take (nat n) (drop (nat start) (bytes d))"
proof (cases "start \<le> byteLength d")
  case True
  show ?thesis
  proof (cases "start + n \<le> byteLength d")
    case T2: True
    with True assms show ?thesis
      by (simp add: u8_slice_def Let_def min_def)
  next
    case False
    with True assms have "nat n \<ge> length (bytes d) - nat start"
      by (simp add: byteLength_def)
    moreover have "nat (byteLength d - start) = length (bytes d) - nat start"
      using assms True by (simp add: byteLength_def)
    ultimately show ?thesis using True False assms
      by (simp add: u8_slice_def Let_def min_def)
  qed
next
  case False
  then have "length (bytes d) \<le> nat start" using assms by (simp add: byteLength_def)
  with False assms show ?thesis
    by (simp add: u8_slice_def Let_def min_def)
qed

lemma written_fresh: "written [] d 0 = d"
  by (simp add: written_def)

lemma written_gap:
  "length old \<le> off \<Longrightarrow>
   take (off - length old) (drop (length old) (written old d off)) = replicate (off - length old) 0"
  by (simp add: written_def Let_def)

lemma written_data:
  "length old \<le> off \<Longrightarrow> take (length d) (drop off (written old d off)) = d"
  by (simp add: written_def Let_def)

lemma written_old:
  "length old \<le> off \<Longrightarrow> take (length old) (written old d off) = old"
  by (simp add: written_def Let_def)

lemma fd_read_nonneg:
  assumes "0 \<le> file_pos fd" and "0 \<le> n"
  shows "fd_read s fd n =
           ((ERRNO_SUCCESS, take (nat n) (drop (nat (file_pos fd)) (bytes (data (files s (file_of fd)))))),
            fd\<lparr>file_pos := file_pos fd
                 + int (length (take (nat n) (drop (nat (file_pos fd)) (bytes (data (files s (file_of fd)))))))\<rparr>)"
  using u8_slice_nonneg [OF assms] by (simp add: fd_read_def Let_def)

lemma fd_pread_nonneg:
  assumes "0 \<le> offset" and "0 \<le> n"
  shows "fd_pread s fd n offset =
           (ERRNO_SUCCESS, take (nat n) (drop (nat offset) (bytes (data (files s (file_of fd))))))"
  using u8_slice_nonneg [OF assms] by (simp add: fd_pread_def Let_def)

text \<open>What can be read back after a write past the end that the engine let grow.\<close>

lemma gap_reads:
  assumes "File_size s f < offset"
    and "bytes (data (files s1 f)) = written (bytes (data (files s f))) d (nat offset)"
  shows "fd_pread s1 \<lparr>file_of = f, file_pos = q\<rparr> (offset - File_size s f) (File_size s f)
           = (ERRNO_SUCCESS, replicate (nat (offset - File_size s f)) 0)"
    and "fd_pread s1 \<lparr>file_of = f, file_pos = q\<rparr> (int (length d)) offset = (ERRNO_SUCCESS, d)"
    and "fd_pread s1 \<lparr>file_of = f, file_pos = q\<rparr> (File_size s f) 0
           = (ERRNO_SUCCESS, bytes (data (files s f)))"
proof -
  let ?old = "bytes (data (files s f))"
  have sz: "File_size s f = int (length ?old)" by (simp add: File_size_def byteLength_def)
  have off: "0 \<le> offset" "length ?old \<le> nat offset"
    "nat (offset - File_size s f) = nat offset - length ?old"
    using assms(1) sz by auto
  show "fd_pread s1 \<lparr>file_of = f, file_pos = q\<rparr> (offset - File_size s f) (File_size s f)
           = (ERRNO_SUCCESS, replicate (nat (offset - File_size s f)) 0)"
    using assms written_gap [OF off(2), of d] off sz by (simp add: fd_pread_nonneg)
  show "fd_pread s1 \<lparr>file_of = f, file_pos = q\<rparr> (int (length d)) offset = (ERRNO_SUCCESS, d)"
    using assms(2) written_data [OF off(2), of d] off(1) by (simp add: fd_pread_nonneg)
  show "fd_pread s1 \<lparr>file_of = f, file_pos = q\<rparr> (File_size s f) 0
           = (ERRNO_SUCCESS, bytes (data (files s f)))"
    using assms(2) written_old [OF off(2), of d] sz by (simp add: fd_pread_nonneg)
qed

text \<open>
  Claim C7, as amended. On a writable file whose buffer is empty, \<^verbatim>\<open>fd_write\<close> of \<open>d\<close>
  through a handle at position 0 succeeds and reports \<open>length d\<close> bytes written, provided
  the engine lets the buffer grow to that length (nothing is asked of it when \<open>d\<close> is
  empty); reading that many bytes from offset 0 afterwards, by \<^verbatim>\<open>fd_pread\<close> or by
  \<^verbatim>\<open>fd_read\<close> after seeking back to 0, returns exactly \<open>d\<close>. On a writable file, a write at
  an offset past the current length, by \<^verbatim>\<open>fd_pwrite\<close> or by \<^verbatim>\<open>fd_write\<close> through a handle
  positioned there, succeeds when the engine lets the buffer grow to the end of the write:
  then reading the gap between the old length and the offset returns zeros only, reading
  at the offset returns \<open>d\<close>, and reading up to the old length returns the old bytes. When
  the engine does not, because the end of the write is beyond \<open>2^53 - 1\<close> or it has not
  the memory, the write raises \<^verbatim>\<open>RangeError\<close> and leaves the store as it was. A read of
  \<open>n\<close> bytes at a position never fails and returns the bytes that are there, at most \<open>n\<close>
  and at most what is left of the file after the position.
\<close>

theorem write_then_read_back:
  "(\<not> readonly (files s f) \<and> bytes (data (files s f)) = []
      \<and> (d = [] \<or> engine_grows s (data (files s f)) (int (length d))) \<longrightarrow>
      (\<exists>s1 fd1.
         fd_write s \<lparr>file_of = f, file_pos = 0\<rparr> d = (Inr (ERRNO_SUCCESS, int (length d)), fd1, s1)
         \<and> fd_pread s1 fd1 (int (length d)) 0 = (ERRNO_SUCCESS, d)
         \<and> fst (fd_read s1 (snd (fd_seek s1 fd1 0 WHENCE_SET)) (int (length d)))
             = (ERRNO_SUCCESS, d)))
   \<and> (\<not> readonly (files s f) \<and> File_size s f < offset
      \<and> engine_grows s (data (files s f)) (offset + int (length d)) \<longrightarrow>
      (\<exists>s1.
         fd_pwrite s \<lparr>file_of = f, file_pos = pos\<rparr> d offset
           = (Inr (ERRNO_SUCCESS, int (length d)), s1)
         \<and> fd_pread s1 \<lparr>file_of = f, file_pos = pos\<rparr> (offset - File_size s f) (File_size s f)
             = (ERRNO_SUCCESS, replicate (nat (offset - File_size s f)) 0)
         \<and> fd_pread s1 \<lparr>file_of = f, file_pos = pos\<rparr> (int (length d)) offset
             = (ERRNO_SUCCESS, d)
         \<and> fd_pread s1 \<lparr>file_of = f, file_pos = pos\<rparr> (File_size s f) 0
             = (ERRNO_SUCCESS, bytes (data (files s f))))
      \<and> (\<exists>s1 fd1.
         fd_write s \<lparr>file_of = f, file_pos = offset\<rparr> d
           = (Inr (ERRNO_SUCCESS, int (length d)), fd1, s1)
         \<and> fd_pread s1 fd1 (offset - File_size s f) (File_size s f)
             = (ERRNO_SUCCESS, replicate (nat (offset - File_size s f)) 0)
         \<and> fd_pread s1 fd1 (int (length d)) offset = (ERRNO_SUCCESS, d)
         \<and> fd_pread s1 fd1 (File_size s f) 0 = (ERRNO_SUCCESS, bytes (data (files s f)))))
   \<and> (\<not> readonly (files s f) \<and> File_size s f < offset
      \<and> \<not> engine_grows s (data (files s f)) (offset + int (length d)) \<longrightarrow>
      fd_pwrite s \<lparr>file_of = f, file_pos = pos\<rparr> d offset = (Inl RangeError, s)
      \<and> fd_write s \<lparr>file_of = f, file_pos = offset\<rparr> d
          = (Inl RangeError, \<lparr>file_of = f, file_pos = offset\<rparr>, s))
   \<and> (0 \<le> pos \<and> 0 \<le> n \<longrightarrow>
      fst (fd_read s \<lparr>file_of = f, file_pos = pos\<rparr> n)
        = (ERRNO_SUCCESS, take (nat n) (drop (nat pos) (bytes (data (files s f)))))
      \<and> fd_pread s \<lparr>file_of = f, file_pos = q\<rparr> n pos
        = (ERRNO_SUCCESS, take (nat n) (drop (nat pos) (bytes (data (files s f)))))
      \<and> int (length (take (nat n) (drop (nat pos) (bytes (data (files s f))))))
        = min n (max 0 (File_size s f - pos)))"
proof -
  have k1: "\<not> readonly (files s f) \<and> bytes (data (files s f)) = []
      \<and> (d = [] \<or> engine_grows s (data (files s f)) (int (length d))) \<longrightarrow>
      (\<exists>s1 fd1.
         fd_write s \<lparr>file_of = f, file_pos = 0\<rparr> d = (Inr (ERRNO_SUCCESS, int (length d)), fd1, s1)
         \<and> fd_pread s1 fd1 (int (length d)) 0 = (ERRNO_SUCCESS, d)
         \<and> fst (fd_read s1 (snd (fd_seek s1 fd1 0 WHENCE_SET)) (int (length d)))
             = (ERRNO_SUCCESS, d))"
  proof (intro impI, elim conjE)
    assume w: "\<not> readonly (files s f)" and e: "bytes (data (files s f)) = []"
      and g: "d = [] \<or> engine_grows s (data (files s f)) (int (length d))"
    have need: "engine_grows s (data (files s f)) (0 + int (length d))"
      if "File_size s f < 0 + int (length d)"
      using that g e by (auto simp: File_size_def byteLength_def)
    obtain s1 where s1:
      "fd_write s \<lparr>file_of = f, file_pos = 0\<rparr> d =
         (Inr (ERRNO_SUCCESS, int (length d)), \<lparr>file_of = f, file_pos = int (length d)\<rparr>, s1)"
      "bytes (data (files s1 f)) = written (bytes (data (files s f))) d 0"
      using fd_write_bytes [of s "\<lparr>file_of = f, file_pos = 0\<rparr>" d] w need by auto
    have b: "bytes (data (files s1 f)) = d" using s1(2) e by (simp add: written_fresh)
    have r1: "fd_pread s1 \<lparr>file_of = f, file_pos = int (length d)\<rparr> (int (length d)) 0
                = (ERRNO_SUCCESS, d)"
      using b by (simp add: fd_pread_nonneg)
    have r2: "fst (fd_read s1 (snd (fd_seek s1 \<lparr>file_of = f, file_pos = int (length d)\<rparr> 0 WHENCE_SET))
                (int (length d))) = (ERRNO_SUCCESS, d)"
      using b by (simp add: fd_seek_def fd_read_nonneg)
    from s1(1) r1 r2 show "\<exists>s1 fd1.
         fd_write s \<lparr>file_of = f, file_pos = 0\<rparr> d = (Inr (ERRNO_SUCCESS, int (length d)), fd1, s1)
         \<and> fd_pread s1 fd1 (int (length d)) 0 = (ERRNO_SUCCESS, d)
         \<and> fst (fd_read s1 (snd (fd_seek s1 fd1 0 WHENCE_SET)) (int (length d)))
             = (ERRNO_SUCCESS, d)"
      by blast
  qed
  have k2: "\<not> readonly (files s f) \<and> File_size s f < offset
      \<and> engine_grows s (data (files s f)) (offset + int (length d)) \<longrightarrow>
      (\<exists>s1.
         fd_pwrite s \<lparr>file_of = f, file_pos = pos\<rparr> d offset
           = (Inr (ERRNO_SUCCESS, int (length d)), s1)
         \<and> fd_pread s1 \<lparr>file_of = f, file_pos = pos\<rparr> (offset - File_size s f) (File_size s f)
             = (ERRNO_SUCCESS, replicate (nat (offset - File_size s f)) 0)
         \<and> fd_pread s1 \<lparr>file_of = f, file_pos = pos\<rparr> (int (length d)) offset
             = (ERRNO_SUCCESS, d)
         \<and> fd_pread s1 \<lparr>file_of = f, file_pos = pos\<rparr> (File_size s f) 0
             = (ERRNO_SUCCESS, bytes (data (files s f))))
      \<and> (\<exists>s1 fd1.
         fd_write s \<lparr>file_of = f, file_pos = offset\<rparr> d
           = (Inr (ERRNO_SUCCESS, int (length d)), fd1, s1)
         \<and> fd_pread s1 fd1 (offset - File_size s f) (File_size s f)
             = (ERRNO_SUCCESS, replicate (nat (offset - File_size s f)) 0)
         \<and> fd_pread s1 fd1 (int (length d)) offset = (ERRNO_SUCCESS, d)
         \<and> fd_pread s1 fd1 (File_size s f) 0 = (ERRNO_SUCCESS, bytes (data (files s f))))"
  proof (intro impI, elim conjE)
    assume w: "\<not> readonly (files s f)" and past: "File_size s f < offset"
      and g: "engine_grows s (data (files s f)) (offset + int (length d))"
    have off: "0 \<le> offset" using past by (simp add: File_size_def byteLength_def)
    obtain s1 where s1:
      "fd_pwrite s \<lparr>file_of = f, file_pos = pos\<rparr> d offset = (Inr (ERRNO_SUCCESS, int (length d)), s1)"
      "bytes (data (files s1 f)) = written (bytes (data (files s f))) d (nat offset)"
      using fd_pwrite_bytes [of s "\<lparr>file_of = f, file_pos = pos\<rparr>" offset d] w off g by auto
    obtain s2 where s2:
      "fd_write s \<lparr>file_of = f, file_pos = offset\<rparr> d =
         (Inr (ERRNO_SUCCESS, int (length d)),
          \<lparr>file_of = f, file_pos = offset + int (length d)\<rparr>, s2)"
      "bytes (data (files s2 f)) = written (bytes (data (files s f))) d (nat offset)"
      using fd_write_bytes [of s "\<lparr>file_of = f, file_pos = offset\<rparr>" d] w off g by auto
    from s1(1) s2(1) gap_reads [OF past s1(2)] gap_reads [OF past s2(2)]
    show "(\<exists>s1.
         fd_pwrite s \<lparr>file_of = f, file_pos = pos\<rparr> d offset
           = (Inr (ERRNO_SUCCESS, int (length d)), s1)
         \<and> fd_pread s1 \<lparr>file_of = f, file_pos = pos\<rparr> (offset - File_size s f) (File_size s f)
             = (ERRNO_SUCCESS, replicate (nat (offset - File_size s f)) 0)
         \<and> fd_pread s1 \<lparr>file_of = f, file_pos = pos\<rparr> (int (length d)) offset
             = (ERRNO_SUCCESS, d)
         \<and> fd_pread s1 \<lparr>file_of = f, file_pos = pos\<rparr> (File_size s f) 0
             = (ERRNO_SUCCESS, bytes (data (files s f))))
      \<and> (\<exists>s1 fd1.
         fd_write s \<lparr>file_of = f, file_pos = offset\<rparr> d
           = (Inr (ERRNO_SUCCESS, int (length d)), fd1, s1)
         \<and> fd_pread s1 fd1 (offset - File_size s f) (File_size s f)
             = (ERRNO_SUCCESS, replicate (nat (offset - File_size s f)) 0)
         \<and> fd_pread s1 fd1 (int (length d)) offset = (ERRNO_SUCCESS, d)
         \<and> fd_pread s1 fd1 (File_size s f) 0 = (ERRNO_SUCCESS, bytes (data (files s f))))"
      by blast
  qed
  have k3: "\<not> readonly (files s f) \<and> File_size s f < offset
      \<and> \<not> engine_grows s (data (files s f)) (offset + int (length d)) \<longrightarrow>
      fd_pwrite s \<lparr>file_of = f, file_pos = pos\<rparr> d offset = (Inl RangeError, s)
      \<and> fd_write s \<lparr>file_of = f, file_pos = offset\<rparr> d
          = (Inl RangeError, \<lparr>file_of = f, file_pos = offset\<rparr>, s)"
  proof (intro impI, elim conjE)
    assume w: "\<not> readonly (files s f)" and past: "File_size s f < offset"
      and g: "\<not> engine_grows s (data (files s f)) (offset + int (length d))"
    have lt: "File_size s f < offset + int (length d)" using past by simp
    have a: "fd_pwrite s \<lparr>file_of = f, file_pos = pos\<rparr> d offset = (Inl RangeError, s)"
      using fd_pwrite_refused [of s "\<lparr>file_of = f, file_pos = pos\<rparr>" offset d] w lt g by simp
    have "fd_pwrite s \<lparr>file_of = f, file_pos = offset\<rparr> d offset = (Inl RangeError, s)"
      using fd_pwrite_refused [of s "\<lparr>file_of = f, file_pos = offset\<rparr>" offset d] w lt g by simp
    then have b: "fd_write s \<lparr>file_of = f, file_pos = offset\<rparr> d
          = (Inl RangeError, \<lparr>file_of = f, file_pos = offset\<rparr>, s)"
      using fd_write_as_pwrite [of s "\<lparr>file_of = f, file_pos = offset\<rparr>" d] w by simp
    from a b show "fd_pwrite s \<lparr>file_of = f, file_pos = pos\<rparr> d offset = (Inl RangeError, s)
      \<and> fd_write s \<lparr>file_of = f, file_pos = offset\<rparr> d
          = (Inl RangeError, \<lparr>file_of = f, file_pos = offset\<rparr>, s)"
      by simp
  qed
  have k4: "0 \<le> pos \<and> 0 \<le> n \<longrightarrow>
      fst (fd_read s \<lparr>file_of = f, file_pos = pos\<rparr> n)
        = (ERRNO_SUCCESS, take (nat n) (drop (nat pos) (bytes (data (files s f)))))
      \<and> fd_pread s \<lparr>file_of = f, file_pos = q\<rparr> n pos
        = (ERRNO_SUCCESS, take (nat n) (drop (nat pos) (bytes (data (files s f)))))
      \<and> int (length (take (nat n) (drop (nat pos) (bytes (data (files s f))))))
        = min n (max 0 (File_size s f - pos))"
    by (auto simp: fd_read_nonneg fd_pread_nonneg File_size_def byteLength_def)
  from k1 k2 k3 k4 show ?thesis by (intro conjI)
qed

theorem write_then_read_back_witness:
  "(\<exists>s1 fd1.
      fd_write example_fs \<lparr>file_of = example_f, file_pos = 0\<rparr> [1, 2, 3]
        = (Inr (ERRNO_SUCCESS, 3), fd1, s1)
      \<and> fd_pread s1 fd1 3 0 = (ERRNO_SUCCESS, [1, 2, 3])
      \<and> fst (fd_read s1 (snd (fd_seek s1 fd1 0 WHENCE_SET)) 3) = (ERRNO_SUCCESS, [1, 2, 3]))
   \<and> (\<exists>s1.
      fd_pwrite example_fs \<lparr>file_of = example_f, file_pos = 0\<rparr> [7] 2
        = (Inr (ERRNO_SUCCESS, 1), s1)
      \<and> fd_pread s1 \<lparr>file_of = example_f, file_pos = 0\<rparr> 2 0
          = (ERRNO_SUCCESS, replicate 2 0)
      \<and> fd_pread s1 \<lparr>file_of = example_f, file_pos = 0\<rparr> 1 2 = (ERRNO_SUCCESS, [7])
      \<and> fd_pread s1 \<lparr>file_of = example_f, file_pos = 0\<rparr> 0 0 = (ERRNO_SUCCESS, []))
   \<and> fd_pwrite example_fs \<lparr>file_of = example_f, file_pos = 0\<rparr> [7] (2 ^ 53)
       = (Inl RangeError, example_fs)
   \<and> fd_pread example_fs \<lparr>file_of = example_ro, file_pos = 0\<rparr> 10 1 = (ERRNO_SUCCESS, [2, 3])"
  using write_then_read_back [of example_fs example_f "[1, 2, 3]" 2 0 0 0]
    write_then_read_back [of example_fs example_f "[7]" 2 0 0 0]
    write_then_read_back [of example_fs example_f "[7]" "2 ^ 53" 0 0 0]
    write_then_read_back [of example_fs example_ro "[]" 0 1 10 0]
  by (simp add: example_fs_cells File_size_def byteLength_def empty_u8array_def
      engine_grows_def max_index_def)

text \<open>
  The claim as it stood, at an offset the engine refuses: the file \<^verbatim>\<open>f\<close> of the example
  tree is writable and empty, and \<open>2^53\<close> is past its length; \<^verbatim>\<open>fd_pwrite\<close> of one byte there
  raises \<^verbatim>\<open>RangeError\<close>, and nothing has grown.
\<close>

theorem write_past_end_counterexample:
  "\<not> readonly (files example_fs example_f)
   \<and> File_size example_fs example_f < 2 ^ 53
   \<and> fd_pwrite example_fs \<lparr>file_of = example_f, file_pos = 0\<rparr> [7] (2 ^ 53)
       = (Inl RangeError, example_fs)"
  by (simp add: fd_pwrite_def dataResize_def new_ArrayBuffer_def File_size_def byteLength_def
      max_index_def empty_u8array_def example_fs_cells)

section \<open>The read-only flag\<close>

lemma readonly_writes_refused:
  assumes "readonly (files s (file_of fd))"
  shows "fd_write s fd d = (Inr (ERRNO_BADF, 0), fd, s)"
    and "fd_pwrite s fd d offset = (Inr (ERRNO_BADF, 0), s)"
    and "OFLAGS_TRUNC \<in> oflags \<Longrightarrow>
           File_path_open s (file_of fd) oflags fs_rights_base fd_flags = ((ERRNO_PERM, None), s)"
  using assms by (simp_all add: fd_write_def fd_pwrite_def File_path_open_def)

text \<open>
  Claim C3, at the input where the code leaves it. The file \<^verbatim>\<open>ro\<close> of the example tree is
  read-only and holds three bytes. \<^verbatim>\<open>fd_filestat_set_size\<close> to 0 succeeds on it and leaves
  it empty; \<^verbatim>\<open>fd_allocate\<close> of four bytes succeeds on it and leaves it one zero byte
  longer: neither operation looks at the flag that \<^verbatim>\<open>fd_write\<close>, \<^verbatim>\<open>fd_pwrite\<close> and the
  truncating open test first.
\<close>

theorem readonly_file_is_resized:
  "readonly (files example_fs example_ro)
   \<and> bytes (data (files example_fs example_ro)) = [1, 2, 3]
   \<and> fst (fd_filestat_set_size example_fs \<lparr>file_of = example_ro, file_pos = 0\<rparr> 0)
       = Inr ERRNO_SUCCESS
   \<and> bytes (data (files (snd (fd_filestat_set_size example_fs
                \<lparr>file_of = example_ro, file_pos = 0\<rparr> 0)) example_ro)) = []
   \<and> fst (fd_allocate example_fs \<lparr>file_of = example_ro, file_pos = 0\<rparr> 0 4) = Inr ERRNO_SUCCESS
   \<and> bytes (data (files (snd (fd_allocate example_fs
                \<lparr>file_of = example_ro, file_pos = 0\<rparr> 0 4)) example_ro)) = [1, 2, 3, 0]
   \<and> fd_write example_fs \<lparr>file_of = example_ro, file_pos = 0\<rparr> [9]
       = (Inr (ERRNO_BADF, 0), \<lparr>file_of = example_ro, file_pos = 0\<rparr>, example_fs)"
  by (simp add: fd_filestat_set_size_def fd_allocate_def fd_write_def dataResize_def
      new_ArrayBuffer_def buffer_resize_def max_index_def
      assign_data_def File_size_def byteLength_def example_fs_cells)

section \<open>The symlink limit\<close>

lemma split_not_Nil: "split str sep \<noteq> []"
  by (cases str) (auto split: list.splits)

lemma split_no_sep: "sep \<notin> set str \<Longrightarrow> split str sep = [str]"
  by (induction str) auto

lemma split_append_sep: "split (a @ sep # b) sep = split a sep @ split b sep"
proof (induction a)
  case Nil
  show ?case by simp
next
  case (Cons c a)
  obtain w ws where w: "split a sep = w # ws"
    using split_not_Nil [of a sep] by (cases "split a sep") auto
  with Cons show ?case by simp
qed

lemma split_components:
  "c \<in> set (split str sep) \<Longrightarrow> sep \<notin> set c \<and> set c \<subseteq> set str"
proof (induction str arbitrary: c)
  case Nil
  then show ?case by simp
next
  case (Cons x xs)
  obtain w ws where w: "split xs sep = w # ws"
    using split_not_Nil [of xs sep] by (cases "split xs sep") auto
  show ?case
  proof (cases "x = sep")
    case True
    with Cons.prems have "c = [] \<or> c \<in> set (split xs sep)" by simp
    with Cons.IH show ?thesis by auto
  next
    case False
    with Cons.prems w have "c = x # w \<or> c \<in> set ws" by simp
    moreover have "w \<in> set (split xs sep)" "set ws \<subseteq> set (split xs sep)" using w by auto
    ultimately show ?thesis using Cons.IH [of w] Cons.IH [of c] False by auto
  qed
qed

lemma endsWith_single: "endsWith str [c] \<longleftrightarrow> str \<noteq> [] \<and> last str = c"
  by (cases str rule: rev_cases) (auto simp: endsWith_def)

lemma startsWith_single: "startsWith str [c] \<longleftrightarrow> str \<noteq> [] \<and> hd str = c"
  by (cases str) (auto simp: startsWith_def)

lemma from_loop_skips_empty:
  "from_loop cs ps = from_loop (filter (\<lambda>c. c \<noteq> []) cs) ps"
  by (induction cs arbitrary: ps) auto

text \<open>The string of clean components, joined.\<close>

lemma clean_componentD:
  assumes "clean_component c"
  shows "c \<noteq> []" and "hd c \<noteq> CHR ''/''" and "last c \<noteq> CHR ''/''"
    and "CHR ''/'' \<notin> set c" and "CHR 0x00 \<notin> set c" and "is_name c"
proof -
  from assms show ne: "c \<noteq> []" by (auto simp: clean_component_def is_name_def)
  from assms show sl: "CHR ''/'' \<notin> set c" by (simp add: clean_component_def)
  from assms show "CHR 0x00 \<notin> set c" by (simp add: clean_component_def)
  from assms show "is_name c" by (simp add: clean_component_def)
  from ne sl show "hd c \<noteq> CHR ''/''" by (cases c) auto
  from ne sl show "last c \<noteq> CHR ''/''" by (cases c rule: rev_cases) auto
qed

lemma join_clean:
  "rest \<noteq> [] \<Longrightarrow> list_all clean_component rest \<Longrightarrow>
   join rest ''/'' \<noteq> []
   \<and> hd (join rest ''/'') \<noteq> CHR ''/''
   \<and> last (join rest ''/'') \<noteq> CHR ''/''
   \<and> CHR 0x00 \<notin> set (join rest ''/'')
   \<and> split (join rest ''/'') CHR ''/'' = rest"
proof (induction rest)
  case Nil
  then show ?case by simp
next
  case (Cons p ps)
  from Cons.prems have p: "clean_component p" by simp
  note pd = clean_componentD [OF p]
  show ?case
  proof (cases ps)
    case Nil
    with pd show ?thesis by (simp add: split_no_sep)
  next
    case (Cons q qs)
    then have j: "join (p # ps) ''/'' = p @ CHR ''/'' # join ps ''/''" by simp
    from Cons Cons.prems Cons.IH have ih: "join ps ''/'' \<noteq> []"
      "last (join ps ''/'') \<noteq> CHR ''/''" "CHR 0x00 \<notin> set (join ps ''/'')"
      "split (join ps ''/'') CHR ''/'' = ps"
      by simp_all
    show ?thesis
      unfolding j using pd ih
      by (simp add: split_append_sep split_no_sep)
  qed
qed

text \<open>The string the code parses when it follows a symlink, case by case.\<close>

lemma followed_path_no_rest:
  "followed_path tgt [] isDir = (if isDir \<and> \<not> endsWith tgt ''/'' then tgt @ ''/'' else tgt)"
  by (simp add: followed_path_def partsToPathString_def)

lemma followed_path_rest:
  assumes "rest \<noteq> []" and "list_all clean_component rest"
  shows "followed_path tgt rest isDir =
           (if tgt = [] then [] else if endsWith tgt ''/'' then tgt else tgt @ ''/'')
           @ join rest ''/'' @ (if isDir then ''/'' else [])"
  using assms join_clean [OF assms]
  by (auto simp: followed_path_def partsToPathString_def joinPaths_def Let_def)

lemma followed_path_split:
  assumes "list_all clean_component rest"
  shows "filter (\<lambda>c. c \<noteq> []) (split (followed_path tgt rest isDir) CHR ''/'')
           = filter (\<lambda>c. c \<noteq> []) (split tgt CHR ''/'' @ rest)"
proof (cases "rest = []")
  case True
  have "split (tgt @ ''/'') CHR ''/'' = split tgt CHR ''/'' @ [[]]"
    using split_append_sep [of tgt "CHR ''/''" "[]"] by simp
  with True show ?thesis by (simp add: followed_path_no_rest)
next
  case False
  note j = join_clean [OF False assms]
  let ?j = "join rest ''/''"
  have tail: "split (?j @ (if isDir then ''/'' else [])) CHR ''/''
                = rest @ (if isDir then [[]] else [])"
    using j split_append_sep [of ?j "CHR ''/''" "[]"] by simp
  show ?thesis
  proof (cases "tgt = []")
    case True
    with False assms tail show ?thesis by (simp add: followed_path_rest)
  next
    case ne: False
    show ?thesis
    proof (cases "endsWith tgt ''/''")
      case True
      then obtain t where t: "tgt = t @ ''/''"
        by (cases tgt rule: rev_cases) (auto simp: endsWith_single)
      have "followed_path tgt rest isDir
              = t @ CHR ''/'' # (?j @ (if isDir then ''/'' else []))"
        using False assms ne True t by (simp add: followed_path_rest)
      moreover have "split tgt CHR ''/'' = split t CHR ''/'' @ [[]]"
        using t split_append_sep [of t "CHR ''/''" "[]"] by simp
      ultimately show ?thesis using tail by (simp add: split_append_sep)
    next
      case nsl: False
      have "followed_path tgt rest isDir
              = tgt @ CHR ''/'' # (?j @ (if isDir then ''/'' else []))"
        using False assms ne nsl by (simp add: followed_path_rest)
      then show ?thesis using tail by (simp add: split_append_sep)
    qed
  qed
qed

lemma followed_path_starts:
  assumes "list_all clean_component rest" and "tgt \<noteq> [] \<or> rest \<noteq> [] \<or> \<not> isDir"
  shows "startsWith (followed_path tgt rest isDir) ''/'' = startsWith tgt ''/''"
proof (cases "rest = []")
  case True
  with assms(2) show ?thesis
    by (cases tgt) (auto simp: followed_path_no_rest startsWith_single)
next
  case False
  note j = join_clean [OF False assms(1)]
  from j show ?thesis
    by (cases tgt) (auto simp: followed_path_rest [OF False assms(1)] startsWith_single)
qed

lemma followed_path_includes:
  assumes "list_all clean_component rest"
  shows "str_includes (followed_path tgt rest isDir) (CHR 0x00) = str_includes tgt (CHR 0x00)"
proof (cases "rest = []")
  case True
  then show ?thesis by (simp add: followed_path_no_rest str_includes_def)
next
  case False
  note j = join_clean [OF False assms(1)]
  from j show ?thesis
    by (simp add: followed_path_rest [OF False assms(1)] str_includes_def)
qed

lemma followed_path_ends:
  assumes "list_all clean_component rest"
  shows "endsWith (followed_path tgt rest isDir) ''/''
           = (isDir \<or> (rest = [] \<and> endsWith tgt ''/''))"
proof (cases "rest = []")
  case True
  then show ?thesis by (auto simp: followed_path_no_rest endsWith_single)
next
  case False
  note j = join_clean [OF False assms(1)]
  from j False show ?thesis
    by (simp add: followed_path_rest [OF False assms(1)] endsWith_single)
qed

lemma Path_from_followed:
  assumes "list_all clean_component rest" and "tgt \<noteq> [] \<or> rest \<noteq> [] \<or> \<not> isDir"
  shows "Path_from (followed_path tgt rest isDir) =
     (if startsWith tgt ''/'' then (ERRNO_NOTCAPABLE, None)
      else if str_includes tgt (CHR 0x00) then (ERRNO_INVAL, None)
      else if ascends_above_root (split tgt CHR ''/'' @ rest) then (ERRNO_NOTCAPABLE, None)
      else (ERRNO_SUCCESS,
            Some \<lparr>parts = retained_components (split tgt CHR ''/'' @ rest),
                  is_dir = (isDir \<or> (rest = [] \<and> endsWith tgt ''/''))\<rparr>))"
proof -
  let ?cs = "split tgt CHR ''/'' @ rest"
  have fl: "from_loop (split (followed_path tgt rest isDir) CHR ''/'') [] = from_loop ?cs []"
    using from_loop_skips_empty [of "split (followed_path tgt rest isDir) CHR ''/''" "[]"]
      from_loop_skips_empty [of ?cs "[]"] followed_path_split [OF assms(1), of tgt isDir]
    by simp
  note hd = followed_path_starts [OF assms] followed_path_includes [OF assms(1)]
    followed_path_ends [OF assms(1)]
  show ?thesis
  proof (cases "from_loop ?cs []")
    case None
    then have "ascends_above_root ?cs"
      using from_loop_None_iff [of ?cs "[]"] by (simp add: ascends_above_root_def)
    with None show ?thesis by (simp add: Path_from_def fl hd)
  next
    case (Some r)
    then have "\<not> ascends_above_root ?cs"
      using from_loop_None_iff [of ?cs "[]"] by (simp add: ascends_above_root_def)
    moreover have "r = retained_components ?cs"
      using from_loop_Some_foldl [OF Some] by (simp add: retained_components_def)
    ultimately show ?thesis using Some by (simp add: Path_from_def fl hd)
  qed
qed

lemma retain_clean:
  "list_all clean_component ps \<Longrightarrow> c \<noteq> [] \<and> c \<noteq> ''.'' \<and> c \<noteq> ''..'' \<longrightarrow> clean_component c \<Longrightarrow>
   list_all clean_component (retain ps c)"
  by (cases ps rule: rev_cases) (auto simp: retain_def)

lemma foldl_retain_clean:
  "list_all clean_component ps \<Longrightarrow>
   \<forall>c \<in> set cs. CHR ''/'' \<notin> set c \<and> CHR 0x00 \<notin> set c \<Longrightarrow>
   list_all clean_component (foldl retain ps cs)"
proof (induction cs arbitrary: ps)
  case Nil
  then show ?case by simp
next
  case (Cons c cs)
  have "c \<noteq> [] \<and> c \<noteq> ''.'' \<and> c \<noteq> ''..'' \<longrightarrow> clean_component c"
    using Cons.prems(2) by (simp add: clean_component_def is_name_def)
  with Cons.prems(1) have "list_all clean_component (retain ps c)"
    by (rule retain_clean)
  with Cons show ?case by simp
qed

lemma retained_components_clean:
  assumes "list_all clean_component rest" and "\<not> str_includes tgt (CHR 0x00)"
  shows "list_all clean_component (retained_components (split tgt CHR ''/'' @ rest))"
  unfolding retained_components_def
proof (rule foldl_retain_clean)
  show "list_all clean_component []" by simp
  show "\<forall>c \<in> set (split tgt CHR ''/'' @ rest). CHR ''/'' \<notin> set c \<and> CHR 0x00 \<notin> set c"
  proof
    fix c assume "c \<in> set (split tgt CHR ''/'' @ rest)"
    then consider "c \<in> set (split tgt CHR ''/'')" | "c \<in> set rest" by auto
    then show "CHR ''/'' \<notin> set c \<and> CHR 0x00 \<notin> set c"
    proof cases
      case 1
      from split_components [OF 1] assms(2) show ?thesis by (auto simp: str_includes_def)
    next
      case 2
      with assms(1) show ?thesis by (auto simp: list_all_iff clean_component_def)
    qed
  qed
qed

lemma Path_from_clean:
  assumes "Path_from p = (r, Some path)"
  shows "list_all clean_component (parts path)"
proof -
  from assms have n: "\<not> str_includes p (CHR 0x00)" and
    f: "from_loop (split p CHR ''/'') [] = Some (parts path)"
    by (auto simp: Path_from_def split: if_splits option.splits)
  have "list_all clean_component (retained_components (split p CHR ''/'' @ []))"
    by (rule retained_components_clean) (simp_all add: n)
  with from_loop_Some_foldl [OF f] show ?thesis by (simp add: retained_components_def)
qed

inductive_cases hops_NilE: "hops s current [] isDir n t"

lemma hops_resolve:
  "hops s current ps isDir n t \<Longrightarrow> list_all clean_component ps \<Longrightarrow>
   stat_filetype t = FILETYPE_REGULAR_FILE \<Longrightarrow>
     (depth + n \<le> SYMLOOP_MAX \<longrightarrow>
        resolve_path_from s current ps isDir True depth = (ERRNO_SUCCESS, Some t))
     \<and> (depth \<le> SYMLOOP_MAX \<and> SYMLOOP_MAX < depth + n \<longrightarrow>
        resolve_path_from s current ps isDir True depth = (ERRNO_LOOP, None))"
proof (induction arbitrary: depth rule: hops.induct)
  case (hops_here s current isDir)
  then show ?case by (simp add: stat_filetype_def)
next
  case (hops_last s current component child isDir)
  then show ?case
    by (cases child) (auto simp: stat_filetype_def split: if_splits)
next
  case (hops_into s current component d rest isDir n t)
  then show ?case by simp
next
  case (hops_follow s current component l rest isDir n t)
  let ?tgt = "target (symlinks s l)"
  let ?cs = "split ?tgt CHR ''/'' @ rest"
  from hops_follow.prems have cl: "list_all clean_component rest" by simp
  have ne: "?tgt \<noteq> [] \<or> rest \<noteq> [] \<or> \<not> isDir"
  proof (rule ccontr)
    assume "\<not> ?thesis"
    then have e: "?tgt = []" "rest = []" "isDir" by simp_all
    then have "retained_components ?cs = []" by (simp add: retained_components_def retain_def)
    with hops_follow.hyps(5) have "hops s current [] True n t" using e by simp
    then have "t = DirectoryRef current" by (rule hops_NilE)
    with hops_follow.prems(2) show False by (simp add: stat_filetype_def)
  qed
  have pf: "Path_from (followed_path ?tgt rest isDir) =
      (ERRNO_SUCCESS, Some \<lparr>parts = retained_components ?cs,
                             is_dir = (isDir \<or> (rest = [] \<and> endsWith ?tgt ''/''))\<rparr>)"
    using Path_from_followed [OF cl ne] hops_follow.hyps(2,3,4) by simp
  have cl': "list_all clean_component (retained_components ?cs)"
    using retained_components_clean [OF cl hops_follow.hyps(3)] .
  show ?case
  proof (cases "SYMLOOP_MAX \<le> depth")
    case True
    with hops_follow.hyps(1) show ?thesis by simp
  next
    case False
    then have step: "resolve_path_from s current (component # rest) isDir True depth =
             resolve_path_from s current (retained_components ?cs)
               (isDir \<or> (rest = [] \<and> endsWith ?tgt ''/'')) True (depth + 1)"
      using hops_follow.hyps(1) pf by simp
    show ?thesis
      unfolding step using hops_follow.IH [OF cl' hops_follow.prems(2), of "depth + 1"] False
      by simp
  qed
qed

lemma example_distinct: "example_d \<noteq> example_root" "example_root \<noteq> example_d"
  by (simp_all add: example_d_def example_root_def)

lemma example_links_cells:
  "contents (directories example_links_fs example_root) =
     [(''ro'', FileRef example_ro), (''f'', FileRef example_f),
      (''e'', DirectoryRef example_e), (''d'', DirectoryRef example_d),
      (''ld'', SymlinkRef example_ld), (''lf'', SymlinkRef example_lf),
      (''le'', SymlinkRef example_le)]"
  "contents (directories example_links_fs example_d) = [(''h'', FileRef example_h)]"
  "target (symlinks example_links_fs example_ld) = ''d''"
  "target (symlinks example_links_fs example_lf) = ''ld/h''"
  "target (symlinks example_links_fs example_le) = ''''"
  by (simp_all add: example_links_fs_def create_symlink_for_path_def path_eval
      new_Symlink_def issue_ino_def contents_set_def Let_def example_distinct
      example_ld_def example_lf_def example_le_def)

lemmas parser_eval = startsWith_def str_includes_def endsWith_def ascends_above_root_def
  names_upto_def dotdots_upto_def is_name_def atMost_upto retained_components_def retain_def

lemma example_hops_ld:
  "hops example_links_fs example_root [''ld'', ''h''] False 1 (FileRef example_h)"
proof -
  have h: "hops example_links_fs example_d [''h''] False 0 (FileRef example_h)"
    by (rule hops_last) (simp_all add: example_links_cells Map_get_def stat_filetype_def)
  have d: "hops example_links_fs example_root [''d'', ''h''] False 0 (FileRef example_h)"
    by (rule hops_into [OF _ _ h]) (simp_all add: example_links_cells Map_get_def)
  have "hops example_links_fs example_root (''ld'' # [''h'']) False (Suc 0) (FileRef example_h)"
    by (rule hops_follow [where l = example_ld])
       (simp_all add: example_links_cells Map_get_def parser_eval d)
  then show ?thesis by simp
qed

lemma example_hops_lf:
  "hops example_links_fs example_root [''lf''] False 2 (FileRef example_h)"
proof -
  have ld: "hops example_links_fs example_root [''ld'', ''h''] False (Suc 0) (FileRef example_h)"
    using example_hops_ld by simp
  have "hops example_links_fs example_root (''lf'' # []) False (Suc (Suc 0)) (FileRef example_h)"
    by (rule hops_follow [where l = example_lf])
       (simp_all add: example_links_cells Map_get_def parser_eval ld)
  then show ?thesis by (simp add: numeral_2_eq_2)
qed

lemma link_name_inj: "link_name i = link_name j \<longleftrightarrow> i = j"
proof
  assume "link_name i = link_name j"
  then have "length (link_name i) = length (link_name j)" by simp
  then show "i = j" by (simp add: link_name_def)
qed simp

lemma link_name_parsed:
  "\<not> startsWith (link_name i) ''/''"
  "\<not> str_includes (link_name i) (CHR 0x00)"
  "\<not> endsWith (link_name i) ''/''"
  "split (link_name i) CHR ''/'' = [link_name i]"
  "\<not> ascends_above_root [link_name i]"
  "retained_components [link_name i] = [link_name i]"
proof -
  show "\<not> startsWith (link_name i) ''/''" by (simp add: startsWith_def link_name_def)
  show "\<not> str_includes (link_name i) (CHR 0x00)" by (simp add: str_includes_def link_name_def)
  show "\<not> endsWith (link_name i) ''/''" by (simp add: endsWith_single link_name_def)
  show "split (link_name i) CHR ''/'' = [link_name i]"
    by (rule split_no_sep) (simp add: link_name_def)
  have nm: "link_name i \<noteq> []" "link_name i \<noteq> ''.''" "link_name i \<noteq> ''..''"
    by (simp_all add: link_name_def)
  have "\<And>k. dotdots_upto k [link_name i] = 0"
    using nm by (simp add: dotdots_upto_def take_Cons')
  then show "\<not> ascends_above_root [link_name i]" by (simp add: ascends_above_root_def)
  show "retained_components [link_name i] = [link_name i]"
    using nm by (simp add: retained_components_def retain_def)
qed

lemma map_of_chain_in:
  "i \<in> set xs \<Longrightarrow> map_of (map (\<lambda>i. (link_name i, g i)) xs @ ys) (link_name i) = Some (g i)"
  by (induction xs) (auto simp: link_name_inj)

lemma map_of_chain_out:
  "i \<notin> set xs \<Longrightarrow> map_of (map (\<lambda>i. (link_name i, g i)) xs @ ys) (link_name i)
     = map_of ys (link_name i)"
  by (induction xs) (auto simp: link_name_inj)

lemma chain_fs_lookup:
  "Map_get (contents (directories (chain_fs n) 0)) (link_name i) =
     (if i < n then Some (SymlinkRef i) else if i = n then Some (FileRef 0) else None)"
proof (cases "i < n")
  case True
  then show ?thesis
    by (simp add: chain_fs_def Map_get_def map_of_chain_in del: map_of_append)
next
  case False
  then show ?thesis
    by (simp add: chain_fs_def Map_get_def map_of_chain_out link_name_inj del: map_of_append)
qed

lemma chain_fs_hops:
  "k \<le> n \<Longrightarrow> hops (chain_fs n) 0 [link_name (n - k)] False k (FileRef 0)"
proof (induction k)
  case 0
  show ?case
    by (rule hops_last) (simp_all add: chain_fs_lookup stat_filetype_def)
next
  case (Suc k)
  then have lt: "n - Suc k < n" and nx: "Suc (n - Suc k) = n - k" by simp_all
  have tg: "target (symlinks (chain_fs n) (n - Suc k)) = link_name (n - k)"
    using nx lt by (simp add: chain_fs_def)
  from Suc have ih: "hops (chain_fs n) 0 [link_name (n - k)] False k (FileRef 0)" by simp
  show ?case
    by (rule hops_follow [where l = "n - Suc k"])
       (simp_all add: tg link_name_parsed chain_fs_lookup lt ih)
qed

text \<open>
  Claim C2. Let a parsed path lead from a directory, through exactly \<open>n\<close> symlinks, to a
  file: each symlink on the way stands for the components of its target followed by the
  components that come after it, read from the directory that holds the symlink.
  Resolving the path with the final symlink followed returns that file when \<open>n\<close> is at most
  40 and fails with LOOP when \<open>n\<close> is more, 41 included. A symlink that is to be followed
  at depth 40 or more fails with LOOP; below that, the target joined with the rest of the
  path is parsed again by the parser's rules (a leading slash, a NUL and an ascent above
  the root are refused) and the retained components are resolved from the same directory
  with the depth one higher, as a directory when the path was to be one or when nothing is
  left and the target ends with a slash. The one string the join does not read as the
  components of the target followed by the rest is that of an empty target with nothing
  left of a path that is to be a directory: the join is a lone slash, which the parser
  refuses with NOTCAPABLE; no chain that ends at a file passes there. The components of
  every path the parser returns are names without slash or NUL, so the first two
  statements speak of every path that comes from the parser.
\<close>

theorem symlink_chain_limit:
  "(list_all clean_component (parts path)
      \<and> hops s this (parts path) (is_dir path) n (FileRef f) \<and> n \<le> 40 \<longrightarrow>
      get_entry_for_path s this path True = (ERRNO_SUCCESS, Some (FileRef f)))
   \<and> (list_all clean_component (parts path)
      \<and> hops s this (parts path) (is_dir path) n (FileRef f) \<and> 40 < n \<longrightarrow>
      get_entry_for_path s this path True = (ERRNO_LOOP, None))
   \<and> (list_all clean_component rest
      \<and> Map_get (contents (directories s current)) component = Some (SymlinkRef l)
      \<and> (target (symlinks s l) \<noteq> '''' \<or> rest \<noteq> [] \<or> \<not> isDir) \<longrightarrow>
      resolve_path_from s current (component # rest) isDir True depth =
        (if depth \<ge> 40 then (ERRNO_LOOP, None)
         else if startsWith (target (symlinks s l)) ''/'' then (ERRNO_NOTCAPABLE, None)
         else if str_includes (target (symlinks s l)) (CHR 0x00) then (ERRNO_INVAL, None)
         else if ascends_above_root (split (target (symlinks s l)) CHR ''/'' @ rest)
           then (ERRNO_NOTCAPABLE, None)
         else resolve_path_from s current
                (retained_components (split (target (symlinks s l)) CHR ''/'' @ rest))
                (isDir \<or> (rest = [] \<and> endsWith (target (symlinks s l)) ''/''))
                True (depth + 1)))
   \<and> (Map_get (contents (directories s current)) component = Some (SymlinkRef l)
      \<and> target (symlinks s l) = '''' \<longrightarrow>
      resolve_path_from s current [component] True True depth =
        (if depth \<ge> 40 then (ERRNO_LOOP, None) else (ERRNO_NOTCAPABLE, None)))
   \<and> (Path_from p = (r, Some parsed) \<longrightarrow> list_all clean_component (parts parsed))"
proof -
  have k1: "list_all clean_component (parts path)
      \<and> hops s this (parts path) (is_dir path) n (FileRef f) \<and> n \<le> 40 \<longrightarrow>
      get_entry_for_path s this path True = (ERRNO_SUCCESS, Some (FileRef f))"
    using hops_resolve [of s this "parts path" "is_dir path" n "FileRef f" 0]
    by (simp add: get_entry_for_path_def resolve_path_def SYMLOOP_MAX_def stat_filetype_def)
  have k2: "list_all clean_component (parts path)
      \<and> hops s this (parts path) (is_dir path) n (FileRef f) \<and> 40 < n \<longrightarrow>
      get_entry_for_path s this path True = (ERRNO_LOOP, None)"
    using hops_resolve [of s this "parts path" "is_dir path" n "FileRef f" 0]
    by (simp add: get_entry_for_path_def resolve_path_def SYMLOOP_MAX_def stat_filetype_def)
  have k3: "list_all clean_component rest
      \<and> Map_get (contents (directories s current)) component = Some (SymlinkRef l)
      \<and> (target (symlinks s l) \<noteq> '''' \<or> rest \<noteq> [] \<or> \<not> isDir) \<longrightarrow>
      resolve_path_from s current (component # rest) isDir True depth =
        (if depth \<ge> 40 then (ERRNO_LOOP, None)
         else if startsWith (target (symlinks s l)) ''/'' then (ERRNO_NOTCAPABLE, None)
         else if str_includes (target (symlinks s l)) (CHR 0x00) then (ERRNO_INVAL, None)
         else if ascends_above_root (split (target (symlinks s l)) CHR ''/'' @ rest)
           then (ERRNO_NOTCAPABLE, None)
         else resolve_path_from s current
                (retained_components (split (target (symlinks s l)) CHR ''/'' @ rest))
                (isDir \<or> (rest = [] \<and> endsWith (target (symlinks s l)) ''/''))
                True (depth + 1))"
  proof (intro impI, elim conjE)
    assume cl: "list_all clean_component rest"
      and m: "Map_get (contents (directories s current)) component = Some (SymlinkRef l)"
      and ne: "target (symlinks s l) \<noteq> '''' \<or> rest \<noteq> [] \<or> \<not> isDir"
    show "resolve_path_from s current (component # rest) isDir True depth =
        (if depth \<ge> 40 then (ERRNO_LOOP, None)
         else if startsWith (target (symlinks s l)) ''/'' then (ERRNO_NOTCAPABLE, None)
         else if str_includes (target (symlinks s l)) (CHR 0x00) then (ERRNO_INVAL, None)
         else if ascends_above_root (split (target (symlinks s l)) CHR ''/'' @ rest)
           then (ERRNO_NOTCAPABLE, None)
         else resolve_path_from s current
                (retained_components (split (target (symlinks s l)) CHR ''/'' @ rest))
                (isDir \<or> (rest = [] \<and> endsWith (target (symlinks s l)) ''/''))
                True (depth + 1))"
      using m by (simp add: Path_from_followed [OF cl ne] SYMLOOP_MAX_def)
  qed
  have k4: "Map_get (contents (directories s current)) component = Some (SymlinkRef l)
      \<and> target (symlinks s l) = '''' \<longrightarrow>
      resolve_path_from s current [component] True True depth =
        (if depth \<ge> 40 then (ERRNO_LOOP, None) else (ERRNO_NOTCAPABLE, None))"
    by (simp add: SYMLOOP_MAX_def followed_path_no_rest Path_from_def startsWith_def endsWith_def)
  have k5: "Path_from p = (r, Some parsed) \<longrightarrow> list_all clean_component (parts parsed)"
    using Path_from_clean [of p r parsed] by simp
  from k1 k2 k3 k4 k5 show ?thesis by (intro conjI)
qed

theorem symlink_chain_limit_witness:
  "hops (chain_fs 40) 0 [''a''] False 40 (FileRef 0)
   \<and> get_entry_for_path (chain_fs 40) 0 \<lparr>parts = [''a''], is_dir = False\<rparr> True
       = (ERRNO_SUCCESS, Some (FileRef 0))
   \<and> hops (chain_fs 41) 0 [''a''] False 41 (FileRef 0)
   \<and> get_entry_for_path (chain_fs 41) 0 \<lparr>parts = [''a''], is_dir = False\<rparr> True
       = (ERRNO_LOOP, None)
   \<and> resolve_path_from (chain_fs 41) 0 [''a''] False True 40 = (ERRNO_LOOP, None)
   \<and> hops example_links_fs example_root [''ld'', ''h''] False 1 (FileRef example_h)
   \<and> get_entry_for_path example_links_fs example_root
        \<lparr>parts = [''ld'', ''h''], is_dir = False\<rparr> True
       = (ERRNO_SUCCESS, Some (FileRef example_h))
   \<and> hops example_links_fs example_root [''lf''] False 2 (FileRef example_h)
   \<and> get_entry_for_path example_links_fs example_root \<lparr>parts = [''lf''], is_dir = False\<rparr> True
       = (ERRNO_SUCCESS, Some (FileRef example_h))
   \<and> resolve_path_from example_links_fs example_root [''ld'', ''h''] False True 0
       = resolve_path_from example_links_fs example_root [''d'', ''h''] False True 1
   \<and> resolve_path_from example_links_fs example_root [''lf''] False True 0
       = resolve_path_from example_links_fs example_root [''ld'', ''h''] False True 1
   \<and> resolve_path_from example_links_fs example_root [''le''] True True 0
       = (ERRNO_NOTCAPABLE, None)
   \<and> Path_from ''ld/h'' = (ERRNO_SUCCESS, Some \<lparr>parts = [''ld'', ''h''], is_dir = False\<rparr>)
   \<and> list_all clean_component [''ld'', ''h'']"
proof -
  have a: "link_name 0 = ''a''" by (simp add: link_name_def)
  have h40: "hops (chain_fs 40) 0 [''a''] False 40 (FileRef 0)"
    using chain_fs_hops [of 40 40] a by simp
  have h41: "hops (chain_fs 41) 0 [''a''] False 41 (FileRef 0)"
    using chain_fs_hops [of 41 41] a by simp
  have l41: "Map_get (contents (directories (chain_fs 41) 0)) ''a'' = Some (SymlinkRef 0)"
    using chain_fs_lookup [of 41 0] a by simp
  have cl: "list_all clean_component [''a'']" "list_all clean_component [''ld'', ''h'']"
    "list_all clean_component [''lf'']" "list_all clean_component [''h'']"
    by (simp_all add: clean_component_def is_name_def)
  have pf: "Path_from ''ld/h'' = (ERRNO_SUCCESS, Some \<lparr>parts = [''ld'', ''h''], is_dir = False\<rparr>)"
    by (simp add: Path_from_def startsWith_def str_includes_def endsWith_def)
  have lk: "Map_get (contents (directories example_links_fs example_root)) ''ld''
              = Some (SymlinkRef example_ld)"
    "Map_get (contents (directories example_links_fs example_root)) ''lf''
              = Some (SymlinkRef example_lf)"
    "Map_get (contents (directories example_links_fs example_root)) ''le''
              = Some (SymlinkRef example_le)"
    by (simp_all add: example_links_cells Map_get_def)
  have c1: "get_entry_for_path (chain_fs 40) 0 \<lparr>parts = [''a''], is_dir = False\<rparr> True
       = (ERRNO_SUCCESS, Some (FileRef 0))"
    using symlink_chain_limit [of "\<lparr>parts = [''a''], is_dir = False\<rparr>" "chain_fs 40" 0 40 0]
      h40 cl by simp
  have c2: "get_entry_for_path (chain_fs 41) 0 \<lparr>parts = [''a''], is_dir = False\<rparr> True
       = (ERRNO_LOOP, None)"
    using symlink_chain_limit [of "\<lparr>parts = [''a''], is_dir = False\<rparr>" "chain_fs 41" 0 41 0]
      h41 cl by simp
  have c3: "resolve_path_from (chain_fs 41) 0 [''a''] False True 40 = (ERRNO_LOOP, None)"
    using symlink_chain_limit [where rest = "[]" and s = "chain_fs 41" and current = 0
        and component = "''a''" and l = 0 and isDir = False and depth = 40] l41
    by simp
  have c4: "get_entry_for_path example_links_fs example_root
        \<lparr>parts = [''ld'', ''h''], is_dir = False\<rparr> True
       = (ERRNO_SUCCESS, Some (FileRef example_h))"
    using symlink_chain_limit [of "\<lparr>parts = [''ld'', ''h''], is_dir = False\<rparr>"
        example_links_fs example_root 1 example_h] example_hops_ld cl by simp
  have c5: "get_entry_for_path example_links_fs example_root
        \<lparr>parts = [''lf''], is_dir = False\<rparr> True
       = (ERRNO_SUCCESS, Some (FileRef example_h))"
    using symlink_chain_limit [of "\<lparr>parts = [''lf''], is_dir = False\<rparr>"
        example_links_fs example_root 2 example_h] example_hops_lf cl by simp
  have c6: "resolve_path_from example_links_fs example_root [''ld'', ''h''] False True 0
       = resolve_path_from example_links_fs example_root [''d'', ''h''] False True 1"
    using symlink_chain_limit [where rest = "[''h'']" and s = example_links_fs
        and current = example_root and component = "''ld''" and l = example_ld
        and isDir = False and depth = 0] lk cl
    by (simp add: example_links_cells parser_eval del: resolve_path_from.simps)
  have c7: "resolve_path_from example_links_fs example_root [''lf''] False True 0
       = resolve_path_from example_links_fs example_root [''ld'', ''h''] False True 1"
    using symlink_chain_limit [where rest = "[]" and s = example_links_fs
        and current = example_root and component = "''lf''" and l = example_lf
        and isDir = False and depth = 0] lk cl
    by (simp add: example_links_cells parser_eval del: resolve_path_from.simps)
  have c8: "resolve_path_from example_links_fs example_root [''le''] True True 0
       = (ERRNO_NOTCAPABLE, None)"
    using symlink_chain_limit [where s = example_links_fs
        and current = example_root and component = "''le''" and l = example_le
        and depth = 0] lk
    by (simp add: example_links_cells del: resolve_path_from.simps)
  have c9: "list_all clean_component [''ld'', ''h'']"
    using symlink_chain_limit [where p = "''ld/h''" and r = ERRNO_SUCCESS
        and parsed = "\<lparr>parts = [''ld'', ''h''], is_dir = False\<rparr>"] pf by simp
  from h40 c1 h41 c2 c3 example_hops_ld c4 example_hops_lf c5 c6 c7 c8 pf c9
  show ?thesis by (intro conjI)
qed

section \<open>Directory listing and inode numbers\<close>

lemma fd_readdir_single_positions:
  "fd_readdir_single s dir 0 =
     Inr (ERRNO_SUCCESS,
          Some \<lparr>d_next = 1, d_ino = ino (directories s dir), dir_name = ''.'',
                d_type = FILETYPE_DIRECTORY\<rparr>)"
  "fd_readdir_single s dir 1 =
     Inr (ERRNO_SUCCESS,
          Some \<lparr>d_next = 2,
                d_ino = (case parent (directories s dir) of
                           None \<Rightarrow> 0
                         | Some p \<Rightarrow> ino (directories s p)),
                dir_name = ''..'', d_type = FILETYPE_DIRECTORY\<rparr>)"
  "2 \<le> n \<Longrightarrow> n < int (length (contents (directories s dir))) + 2 \<Longrightarrow>
   fd_readdir_single s dir n =
     Inr (ERRNO_SUCCESS,
          Some \<lparr>d_next = n + 1,
                d_ino = ino_of s (snd (contents (directories s dir) ! nat (n - 2))),
                dir_name = fst (contents (directories s dir) ! nat (n - 2)),
                d_type = stat_filetype (snd (contents (directories s dir) ! nat (n - 2)))\<rparr>)"
  "int (length (contents (directories s dir))) + 2 \<le> n \<Longrightarrow>
   fd_readdir_single s dir n = Inr (ERRNO_SUCCESS, None)"
  by (auto simp: fd_readdir_single_def parent_ino_def root_ino_def Map_size_def
      split: prod.splits option.splits)

lemma upt_shift: "map f [0..<Suc n] = f 0 # map (\<lambda>k. f (Suc k)) [0..<n]"
proof -
  have "[0..<Suc n] = 0 # map Suc [0..<n]"
    by (simp only: map_Suc_upt) (rule upt_conv_Cons, simp)
  then show ?thesis by (simp only: list.map map_map comp_def)
qed

lemma issue_inos_from:
  "fst (issue_inos n s) = map (\<lambda>k. next_ino s + int k) [0..<n]
   \<and> next_ino (snd (issue_inos n s)) = next_ino s + int n"
proof (induction n arbitrary: s)
  case 0
  show ?case by simp
next
  case (Suc n)
  let ?s1 = "s\<lparr>next_ino := next_ino s + 1\<rparr>"
  have unfold: "issue_inos (Suc n) s = (next_ino s # fst (issue_inos n ?s1), snd (issue_inos n ?s1))"
    by (simp add: issue_ino_def split: prod.splits)
  have "map (\<lambda>k. next_ino s + int k) [0..<Suc n]
          = next_ino s # map (\<lambda>k. next_ino ?s1 + int k) [0..<n]"
    by (simp only: upt_shift) (simp add: add.assoc)
  then show ?case
    using Suc.IH [of ?s1] by (simp only: unfold fst_conv snd_conv) simp
qed

lemma issue_inos_initial:
  assumes "next_ino s = initial_next_ino"
  shows "fst (issue_inos n s) = map int [1..<Suc n]"
    and "distinct (fst (issue_inos n s))"
    and "sorted_wrt (<) (fst (issue_inos n s))"
    and "root_ino \<notin> set (fst (issue_inos n s))"
proof -
  have "map (\<lambda>k. 1 + int k) [0..<n] = map (\<lambda>k. int (Suc k)) [0..<n]" by simp
  also have "\<dots> = map int (map Suc [0..<n])" by (simp only: map_map comp_def)
  also have "\<dots> = map int [1..<Suc n]" by (simp only: map_Suc_upt One_nat_def)
  finally show eq: "fst (issue_inos n s) = map int [1..<Suc n]"
    using issue_inos_from [of n s] assms by (simp add: initial_next_ino_def)
  show "distinct (fst (issue_inos n s))"
    unfolding eq by (simp add: distinct_map)
  show "sorted_wrt (<) (fst (issue_inos n s))"
    unfolding eq by (simp only: sorted_wrt_map of_nat_less_iff sorted_wrt_upt)
  show "root_ino \<notin> set (fst (issue_inos n s))"
    unfolding eq by (auto simp: root_ino_def)
qed

text \<open>
  Claim C6, at the input where the code leaves it. The root of the example tree has no
  parent. Its own ino, the one the counter issued to it and the one cookie 0 reports for
  \<^verbatim>\<open>.\<close>, is 6; cookie 1 reports 0 for \<^verbatim>\<open>..\<close>, the number \<^verbatim>\<open>root_ino()\<close> returns, which the
  counter issues to no inode, the root included.
\<close>

theorem root_dotdot_ino_differs:
  "parent (directories example_fs example_root) = None
   \<and> ino (directories example_fs example_root) = 6
   \<and> fd_readdir_single example_fs example_root 0 =
       Inr (ERRNO_SUCCESS,
            Some \<lparr>d_next = 1, d_ino = 6, dir_name = ''.'', d_type = FILETYPE_DIRECTORY\<rparr>)
   \<and> fd_readdir_single example_fs example_root 1 =
       Inr (ERRNO_SUCCESS,
            Some \<lparr>d_next = 2, d_ino = 0, dir_name = ''..'', d_type = FILETYPE_DIRECTORY\<rparr>)
   \<and> fd_readdir_single example_fs example_root 2 =
       Inr (ERRNO_SUCCESS,
            Some \<lparr>d_next = 3, d_ino = 1, dir_name = ''ro'', d_type = FILETYPE_REGULAR_FILE\<rparr>)
   \<and> fd_readdir_single example_fs example_root 6 = Inr (ERRNO_SUCCESS, None)"
  by (simp add: fd_readdir_single_def parent_ino_def root_ino_def Map_size_def ino_of_def
      stat_filetype_def example_fs_cells)

end
